theory Spec2Isabelle
  imports Complex_Main
begin

section \<open>Scroll-driven camera (src/components/scene/ScrollDrivenCamera.tsx)\<close>

text \<open>
  JavaScript numbers are modelled as the reals: the arithmetic of the source is kept
  operation by operation, rounding to IEEE doubles is left out.
\<close>

subsection \<open>Data\<close>

type_synonym triple = "real \<times> real \<times> real"

text \<open>\<^verbatim>\<open>interface CameraKeyframe\<close> of config/narrative.ts; \<^verbatim>\<open>fov?\<close> is optional.\<close>

record CameraKeyframe =
  offset :: real
  position :: triple
  target :: triple
  fov :: "real option"

text \<open>\<^verbatim>\<open>THREE.Vector3\<close>: three mutable number fields.\<close>

record Vector3 =
  x :: real
  y :: real
  z :: real

text \<open>
  The camera of the scene. \<open>cam_fov\<close> is \<open>None\<close> when the camera is not a
  \<^verbatim>\<open>THREE.PerspectiveCamera\<close> (the \<^verbatim>\<open>instanceof\<close> test of the source).
\<close>

record Camera =
  cam_position :: Vector3
  cam_lookAt :: Vector3
  cam_fov :: "real option"

text \<open>The four refs of the component and the camera it drives.\<close>

record CameraState =
  currentPosition :: Vector3
  currentTarget :: Vector3
  targetPosition :: Vector3
  targetLookAt :: Vector3
  camera :: Camera

datatype js_error =
    TypeError
  | FetchRejected
  | ApiError string nat
  | InvalidResponse string
  | JsonSyntaxError
  | AllProvidersFailed

subsection \<open>Library functions of three.js\<close>

text \<open>\<^verbatim>\<open>THREE.MathUtils.lerp(x, y, t)\<close> is \<^verbatim>\<open>(1 - t) * x + t * y\<close>.\<close>

definition lerp :: "real \<Rightarrow> real \<Rightarrow> real \<Rightarrow> real" where
  "lerp a b t = (1 - t) * a + t * b"

text \<open>\<^verbatim>\<open>Vector3.set(x, y, z)\<close>.\<close>

definition v3set :: "real \<Rightarrow> real \<Rightarrow> real \<Rightarrow> Vector3" where
  "v3set a b c = \<lparr>x = a, y = b, z = c\<rparr>"



subsection \<open>The easing function\<close>

definition easeInOutCubic :: "real \<Rightarrow> real" where
  "easeInOutCubic t =
     (if t < 0.5 then 4 * t * t * t else 1 - (- 2 * t + 2) ^ 3 / 2)"

subsection \<open>Sorting and bracketing\<close>


text \<open>
  The loop of \<^verbatim>\<open>findKeyframeRange\<close>: it walks the adjacent pairs from the left and
  stops (\<^verbatim>\<open>break\<close>) at the first pair whose offsets enclose the scroll offset.
  \<open>None\<close> means the loop ended without assigning.
\<close>

fun scanPairs :: "CameraKeyframe list \<Rightarrow> real \<Rightarrow> (CameraKeyframe \<times> CameraKeyframe) option" where
  "scanPairs (a # b # rest) s =
     (if offset a \<le> s \<and> offset b \<ge> s then Some (a, b) else scanPairs (b # rest) s)"
| "scanPairs _ s = None"

text \<open>
  \<^verbatim>\<open>findKeyframeRange\<close>: \<^verbatim>\<open>before\<close> and \<^verbatim>\<open>after\<close> start as the first and the last
  keyframe and are overwritten by the loop. On an empty list both are \<^verbatim>\<open>undefined\<close>,
  here \<open>None\<close>.
\<close>

definition findKeyframeRange ::
  "CameraKeyframe list \<Rightarrow> real \<Rightarrow> CameraKeyframe option \<times> CameraKeyframe option" where
  "findKeyframeRange kfs s =
     (case scanPairs kfs s of
        Some (b, a) \<Rightarrow> (Some b, Some a)
      | None \<Rightarrow> (case kfs of [] \<Rightarrow> (None, None) | k # ks \<Rightarrow> (Some k, Some (last kfs))))"

subsection \<open>Interpolation\<close>

text \<open>The interpolation factor \<^verbatim>\<open>t\<close> of \<^verbatim>\<open>interpolateKeyframes\<close>.\<close>

definition localT :: "CameraKeyframe \<Rightarrow> CameraKeyframe \<Rightarrow> real \<Rightarrow> real" where
  "localT before after s =
     (let rng = offset after - offset before
      in if rng > 0 then (s - offset before) / rng else 0)"

definition lerp3 :: "triple \<Rightarrow> triple \<Rightarrow> real \<Rightarrow> Vector3" where
  "lerp3 p q e =
     (case (p, q) of ((p0, p1, p2), (q0, q1, q2)) \<Rightarrow>
        v3set (lerp p0 q0 e) (lerp p1 q1 e) (lerp p2 q2 e))"

text \<open>
  \<^verbatim>\<open>targetFov\<close>, computed only when both keyframes define \<^verbatim>\<open>fov\<close>.
\<close>

definition targetFov :: "CameraKeyframe \<Rightarrow> CameraKeyframe \<Rightarrow> real \<Rightarrow> real option" where
  "targetFov before after e =
     (case (fov before, fov after) of
        (Some bf, Some af) \<Rightarrow> Some (lerp bf af e)
      | _ \<Rightarrow> None)"

text \<open>
  \<^verbatim>\<open>interpolateKeyframes(offset)\<close>. Reading \<^verbatim>\<open>after.offset\<close> of \<^verbatim>\<open>undefined\<close>
  throws a TypeError. The camera's fov moves a tenth of the way to \<^verbatim>\<open>targetFov\<close>.
\<close>

definition interpolateKeyframes ::
  "CameraKeyframe list \<Rightarrow> CameraState \<Rightarrow> real \<Rightarrow> js_error + CameraState" where
  "interpolateKeyframes kfs st s =
     (case findKeyframeRange kfs s of
        (Some before, Some after) \<Rightarrow>
          (let t = localT before after s;
               eased = easeInOutCubic t;
               cam = camera st;
               cam' = (case (targetFov before after eased, cam_fov cam) of
                         (Some tf, Some cf) \<Rightarrow> cam\<lparr>cam_fov := Some (lerp cf tf 0.1)\<rparr>
                       | _ \<Rightarrow> cam)
           in Inr (st\<lparr>targetPosition := lerp3 (position before) (position after) eased,
                      targetLookAt := lerp3 (target before) (target after) eased,
                      camera := cam'\<rparr>))
      | _ \<Rightarrow> Inl TypeError)"

subsection \<open>The per-frame callback\<close>




section \<open>Narrative overlay (NarrativeOverlay)\<close>

record NarrativeSection =
  section_id :: string
  scrollStart :: real
  scrollEnd :: real
  title :: string

text \<open>\<^verbatim>\<open>sections.find(s => scrollProgress >= s.scrollStart && scrollProgress <= s.scrollEnd)\<close>.\<close>

definition activeSection :: "NarrativeSection list \<Rightarrow> real \<Rightarrow> NarrativeSection option" where
  "activeSection sections scrollProgress =
     find (\<lambda>sec. scrollProgress \<ge> scrollStart sec \<and> scrollProgress \<le> scrollEnd sec) sections"

text \<open>
  JavaScript numbers are IEEE 754 binary64 values, and the narrative overlay is compared
  with exact values, so its arithmetic is modelled with the rounding of each operation:
  \<open>fl v\<close> is the double nearest to the real \<open>v\<close>, ties going to the even
  significand. \<open>binade v\<close> is the exponent \<open>e\<close> with
  \<open>2 ^ e \<le> \<bar>v\<bar> < 2 ^ (e + 1)\<close>, and the significand has 53 bits. The exponent
  is not bounded: overflow, subnormal numbers, infinities and NaN are outside the model
  (scroll offsets and section bounds lie in the unit interval).
\<close>

definition roundEven :: "real \<Rightarrow> int" where
  "roundEven v =
     (let f = \<lfloor>v\<rfloor>; r = v - of_int f
      in if r < 1 / 2 then f else if r > 1 / 2 then f + 1 else if even f then f else f + 1)"

definition pow2 :: "int \<Rightarrow> real" where
  "pow2 k = (if 0 \<le> k then 2 ^ nat k else 1 / 2 ^ nat (- k))"

definition binade :: "real \<Rightarrow> int" where
  "binade v = \<lfloor>log 2 \<bar>v\<bar>\<rfloor>"

definition fl :: "real \<Rightarrow> real" where
  "fl v = (if v = 0 then 0
           else of_int (roundEven (v / pow2 (binade v - 52))) * pow2 (binade v - 52))"

text \<open>
  \<^verbatim>\<open>getSectionProgress\<close>: every subtraction, addition and division is rounded;
  \<^verbatim>\<open>range / 2\<close> is computed at each of its three occurrences, with the same result.
\<close>

definition getSectionProgress :: "real \<Rightarrow> NarrativeSection \<Rightarrow> real" where
  "getSectionProgress scrollProgress sec =
     (if scrollProgress < scrollStart sec then 0
      else if scrollProgress > scrollEnd sec then 0
      else
        (let rng = fl (scrollEnd sec - scrollStart sec);
             mid = fl (scrollStart sec + fl (rng / 2))
         in if scrollProgress < mid
            then fl (fl (scrollProgress - scrollStart sec) / fl (rng / 2))
            else fl (1 - fl (fl (scrollProgress - mid) / fl (rng / 2)))))"


section \<open>Terrain elevation client (lib/terrain API module)\<close>

subsection \<open>Data\<close>

record LatLng =
  lat :: real
  lng :: real

record TerrainConfig =
  center :: LatLng
  zoom :: real
  tileSize :: real
  areaKm :: real
  resolution :: nat

record Bounds =
  north :: real
  south :: real
  east :: real
  west :: real

datatype Source = opentopodata | openmeteo | openelevation | cache

text \<open>
  \<^verbatim>\<open>interface ElevationData\<close>. The \<^verbatim>\<open>Float32Array\<close> is a list of fixed length; a write
  past its end is ignored, as \<open>xs[i := v]\<close> is.
\<close>

record ElevationData =
  elevations :: "real list"
  width :: nat
  height :: nat
  minElevation :: real
  maxElevation :: real
  bounds :: Bounds
  source :: Source

datatype ElevationAPIProvider =
  use_opentopodata | use_openmeteo | use_openelevation | use_auto

text \<open>
  \<^verbatim>\<open>interface CacheEntry\<close>. Its \<^verbatim>\<open>data\<close> has the fields of \<^verbatim>\<open>ElevationData\<close> with a
  plain number array; \<^verbatim>\<open>Array.from\<close> and \<^verbatim>\<open>new Float32Array\<close> convert between the two
  and are the identity on the list of the model.
\<close>

record CacheEntry =
  data :: ElevationData
  timestamp :: int

text \<open>The optional fields of the \<^verbatim>\<open>options\<close> argument of \<^verbatim>\<open>fetchTerrain\<close>.\<close>

record FetchOptions =
  provider :: "ElevationAPIProvider option"
  useCache :: "bool option"

subsection \<open>The browser: local storage and the network\<close>

text \<open>
  \<^verbatim>\<open>x.toFixed(n)\<close> prints the sign and the decimal digits of \<open>\<bar>x\<bar>\<close> rounded to \<open>n\<close>
  places, a tie going up. The string is represented by the sign and the rounded
  integer \<open>\<bar>x\<bar> * 10^n\<close>.
\<close>

type_synonym fixed = "bool \<times> int"

definition toFixed :: "nat \<Rightarrow> real \<Rightarrow> fixed" where
  "toFixed n v = (v < 0, \<lfloor>\<bar>v\<bar> * 10 ^ n + 1 / 2\<rfloor>)"

text \<open>
  The cache key
  \<^verbatim>\<open>`terrain-${lat.toFixed(4)}-${lng.toFixed(4)}-${areaKm}-${resolution}`\<close>,
  kept as the tuple of the four parts that the template prints.
\<close>

type_synonym cache_key = "fixed \<times> fixed \<times> real \<times> nat"

definition getCacheKey :: "TerrainConfig \<Rightarrow> cache_key" where
  "getCacheKey config =
     (toFixed 4 (lat (center config)), toFixed 4 (lng (center config)),
      areaKm config, resolution config)"

text \<open>
  What \<^verbatim>\<open>localStorage.getItem\<close> holds under a key: text that \<^verbatim>\<open>JSON.parse\<close> rejects,
  or a serialised cache entry.
\<close>

datatype stored = Unparseable | Entry CacheEntry

text \<open>A grid coordinate; \<open>None\<close> is the \<^verbatim>\<open>NaN\<close> that \<^verbatim>\<open>0 / 0\<close> gives for resolution 1.\<close>

type_synonym coord = "real option"

datatype request =
    TopoRequest "(fixed option \<times> fixed option) list"
  | MeteoRequest "fixed option list" "fixed option list"
  | ElevationRequest "(coord \<times> coord) list"

text \<open>
  An element of the \<^verbatim>\<open>results\<close> array of a reply: \<^verbatim>\<open>null\<close>, of which reading
  \<^verbatim>\<open>.elevation\<close> throws a TypeError, or a value with its \<^verbatim>\<open>elevation\<close>, a number or
  nothing.
\<close>

datatype result_entry = ResultNull | ResultObject "real option"

text \<open>The parsed body of a reply, with the fields that the three clients read.\<close>

record payload =
  status :: "string option"
  results :: "result_entry list option"
  elevation :: "real option list option"

text \<open>
  The outcome of \<^verbatim>\<open>fetch\<close> and \<^verbatim>\<open>response.json()\<close>: the promise rejects, the status
  is not ok, the body is not JSON, or a body.
\<close>

datatype response = Rejected | NotOk nat | BadJson | Json payload

text \<open>
  The network answers the \<open>i\<close>-th request of the session; the answer may depend on \<open>i\<close>.
\<close>

type_synonym network = "nat \<Rightarrow> request \<Rightarrow> response"

text \<open>
  The environment. \<open>window_defined\<close> is \<^verbatim>\<open>typeof window !== 'undefined'\<close>;
  \<open>quota_exceeded\<close> says that \<^verbatim>\<open>localStorage.setItem\<close> throws; \<open>requests\<close> logs the
  requests sent so far.
\<close>

record Browser =
  window_defined :: bool
  localStorage :: "cache_key \<rightharpoonup> stored"
  quota_exceeded :: bool
  requests :: "request list"

definition send :: "network \<Rightarrow> Browser \<Rightarrow> request \<Rightarrow> Browser \<times> response" where
  "send net w req = (w\<lparr>requests := requests w @ [req]\<rparr>, net (length (requests w)) req)"

subsection \<open>The cache\<close>

definition ttl :: int where
  "ttl = 24 * 60 * 60 * 1000"

text \<open>\<^verbatim>\<open>getFromCache\<close>; \<open>now\<close> is the value of \<^verbatim>\<open>Date.now()\<close>.\<close>

definition getFromCache :: "Browser \<Rightarrow> TerrainConfig \<Rightarrow> int \<Rightarrow> Browser \<times> ElevationData option" where
  "getFromCache w config now =
     (if \<not> window_defined w then (w, None)
      else
        (let key = getCacheKey config in
         case localStorage w key of
           None \<Rightarrow> (w, None)
         | Some Unparseable \<Rightarrow> (w, None)
         | Some (Entry entry) \<Rightarrow>
             if now - timestamp entry > ttl
             then (w\<lparr>localStorage := (localStorage w)(key := None)\<rparr>, None)
             else (w, Some ((data entry)\<lparr>source := cache\<rparr>))))"

text \<open>\<^verbatim>\<open>saveToCache\<close>; a throwing \<^verbatim>\<open>setItem\<close> is caught and only logged.\<close>

definition saveToCache :: "Browser \<Rightarrow> TerrainConfig \<Rightarrow> ElevationData \<Rightarrow> int \<Rightarrow> Browser" where
  "saveToCache w config d now =
     (if \<not> window_defined w then w
      else
        (let key = getCacheKey config;
             entry = \<lparr>data = d, timestamp = now\<rparr>
         in if quota_exceeded w then w
            else w\<lparr>localStorage := (localStorage w)(key \<mapsto> Entry entry)\<rparr>))"

subsection \<open>The sample grid\<close>

text \<open>
  \<^verbatim>\<open>getBoundingBox\<close>. At a pole \<^verbatim>\<open>kmPerDegreeLng\<close> is zero in the reals and the
  quotient is \<open>0\<close> here, where a double is never exactly zero.
\<close>

definition getBoundingBox :: "real \<Rightarrow> real \<Rightarrow> real \<Rightarrow> Bounds" where
  "getBoundingBox la lo area =
     (let kmPerDegreeLat = 111.32;
          kmPerDegreeLng = 111.32 * cos (la * pi / 180);
          deltaLat = area / 2 / kmPerDegreeLat;
          deltaLng = area / 2 / kmPerDegreeLng
      in \<lparr>north = la + deltaLat, south = la - deltaLat,
           east = lo + deltaLng, west = lo - deltaLng\<rparr>)"

text \<open>
  \<^verbatim>\<open>i / (resolution - 1)\<close>, which is \<^verbatim>\<open>NaN\<close> when both are zero. The loops call it
  with \<open>i < res\<close> only.
\<close>

definition gridFraction :: "nat \<Rightarrow> nat \<Rightarrow> coord" where
  "gridFraction i res = (if real res - 1 = 0 \<and> i = 0 then None else Some (real i / (real res - 1)))"

definition gridLat :: "Bounds \<Rightarrow> nat \<Rightarrow> nat \<Rightarrow> coord" where
  "gridLat b res yi = map_option (\<lambda>f. north b - f * (north b - south b)) (gridFraction yi res)"

definition gridLng :: "Bounds \<Rightarrow> nat \<Rightarrow> nat \<Rightarrow> coord" where
  "gridLng b res xi = map_option (\<lambda>f. west b + f * (east b - west b)) (gridFraction xi res)"

text \<open>The two nested loops over \<^verbatim>\<open>y\<close> and \<^verbatim>\<open>x\<close>, row by row.\<close>

definition gridLocations :: "Bounds \<Rightarrow> nat \<Rightarrow> (coord \<times> coord) list" where
  "gridLocations b res =
     concat (map (\<lambda>yi. map (\<lambda>xi. (gridLat b res yi, gridLng b res xi)) [0..<res]) [0..<res])"

text \<open>
  \<^verbatim>\<open>for (let i = 0; i < all.length; i += chunkSize) chunks.push(all.slice(i, i + chunkSize))\<close>.
  The source calls it with the chunk sizes 100 and 500 only.
\<close>

function chunksOf :: "nat \<Rightarrow> 'a list \<Rightarrow> 'a list list" where
  "chunksOf n xs = (if xs = [] \<or> n = 0 then [] else take n xs # chunksOf n (drop n xs))"
  by pat_completeness auto
termination
  by (relation "measure (\<lambda>(n, xs). length xs)") auto

subsection \<open>Writing samples\<close>

text \<open>The local variables of a client's loop: the array, the extremes, the write offset.
  \<open>None\<close> is the initial \<^verbatim>\<open>Infinity\<close> or \<^verbatim>\<open>-Infinity\<close>.\<close>

record Accum =
  acc_elevations :: "real list"
  minElev :: "real option"
  maxElev :: "real option"
  acc_offset :: nat

definition initAccum :: "nat \<Rightarrow> Accum" where
  "initAccum res =
     \<lparr>acc_elevations = replicate (res * res) 0, minElev = None, maxElev = None, acc_offset = 0\<rparr>"

text \<open>
  The body of the loop over one reply. \<^verbatim>\<open>result.elevation ?? 0\<close> and
  \<^verbatim>\<open>result.elevation || 0\<close> both turn a missing value into \<open>0\<close>; the test
  \<^verbatim>\<open>elev !== null\<close> that follows is then always true.
\<close>

definition storeResult :: "real option \<Rightarrow> Accum \<Rightarrow> Accum" where
  "storeResult r acc =
     (let elev = (case r of None \<Rightarrow> 0 | Some v \<Rightarrow> v)
      in acc\<lparr>acc_elevations := (acc_elevations acc)[acc_offset acc := elev],
             acc_offset := Suc (acc_offset acc),
             minElev := Some (case minElev acc of None \<Rightarrow> elev | Some m \<Rightarrow> min m elev),
             maxElev := Some (case maxElev acc of None \<Rightarrow> elev | Some m \<Rightarrow> max m elev)\<rparr>)"

fun storeResults :: "real option list \<Rightarrow> Accum \<Rightarrow> Accum" where
  "storeResults [] acc = acc"
| "storeResults (r # rs) acc = storeResults rs (storeResult r acc)"

text \<open>
  \<^verbatim>\<open>for (const result of data.results)\<close>: the loop stops with a TypeError at a
  \<^verbatim>\<open>null\<close> element, and what it wrote before stays written. The second component is
  the error thrown, if any.
\<close>

fun storeEntries :: "result_entry list \<Rightarrow> Accum \<Rightarrow> Accum \<times> js_error option" where
  "storeEntries [] acc = (acc, None)"
| "storeEntries (ResultNull # rs) acc = (acc, Some TypeError)"
| "storeEntries (ResultObject r # rs) acc = storeEntries rs (storeResult r acc)"

text \<open>\<^verbatim>\<open>for (let j = 0; j < chunk.length; j++) elevations[offset++] = 0\<close>.\<close>

fun fillZeros :: "nat \<Rightarrow> Accum \<Rightarrow> Accum" where
  "fillZeros 0 acc = acc"
| "fillZeros (Suc n) acc =
     fillZeros n (acc\<lparr>acc_elevations := (acc_elevations acc)[acc_offset acc := 0],
                      acc_offset := Suc (acc_offset acc)\<rparr>)"

text \<open>The value returned after the loop, with the defaults for an empty range.\<close>

definition finish :: "nat \<Rightarrow> Bounds \<Rightarrow> Source \<Rightarrow> Accum \<Rightarrow> ElevationData" where
  "finish res b src acc =
     \<lparr>elevations = acc_elevations acc, width = res, height = res,
      minElevation = (case minElev acc of None \<Rightarrow> 0 | Some m \<Rightarrow> m),
      maxElevation = (case maxElev acc of None \<Rightarrow> 100 | Some m \<Rightarrow> m),
      bounds = b, source = src\<rparr>"

subsection \<open>The three clients\<close>

text \<open>
  Each client sends its chunks one after the other. The progress callback and the
  pauses between requests have no effect on the result and are left out.
\<close>

type_synonym client = "network \<Rightarrow> Browser \<Rightarrow> TerrainConfig \<Rightarrow> Browser \<times> (js_error + ElevationData)"

text \<open>
  What the \<^verbatim>\<open>try\<close> block of \<^verbatim>\<open>fetchOpenTopoData\<close> reads from a reply, or the error
  it throws before its loop.
\<close>

definition topoReply :: "response \<Rightarrow> js_error + result_entry list" where
  "topoReply resp =
     (case resp of
        Rejected \<Rightarrow> Inl FetchRejected
      | NotOk code \<Rightarrow> Inl (ApiError ''Open Topo Data API error'' code)
      | BadJson \<Rightarrow> Inl JsonSyntaxError
      | Json d \<Rightarrow>
          (case results d of
             None \<Rightarrow> Inl (InvalidResponse ''Invalid response from Open Topo Data'')
           | Some rs \<Rightarrow>
               if status d \<noteq> Some ''OK''
               then Inl (InvalidResponse ''Invalid response from Open Topo Data'')
               else Inr rs))"

text \<open>
  The \<^verbatim>\<open>try\<close> block for one chunk: the state its writes leave and the error it
  throws, if any.
\<close>

definition topoTry :: "response \<Rightarrow> Accum \<Rightarrow> Accum \<times> js_error option" where
  "topoTry resp acc =
     (case topoReply resp of
        Inl e \<Rightarrow> (acc, Some e)
      | Inr rs \<Rightarrow> storeEntries rs acc)"

text \<open>The chunk loop of \<^verbatim>\<open>fetchOpenTopoData\<close>; the \<^verbatim>\<open>catch\<close> logs and rethrows.\<close>

fun topoChunks ::
  "network \<Rightarrow> (fixed option \<times> fixed option) list list \<Rightarrow> Browser \<Rightarrow> Accum
     \<Rightarrow> Browser \<times> (js_error + Accum)" where
  "topoChunks net [] w acc = (w, Inr acc)"
| "topoChunks net (chunk # chunks) w acc =
     (case send net w (TopoRequest chunk) of
        (w', resp) \<Rightarrow>
          (case topoTry resp acc of
             (acc', Some e) \<Rightarrow> (w', Inl e)
           | (acc', None) \<Rightarrow> topoChunks net chunks w' acc'))"

definition fetchOpenTopoData :: client where
  "fetchOpenTopoData net w config =
     (let res = resolution config;
          b = getBoundingBox (lat (center config)) (lng (center config)) (areaKm config);
          allLocations = map (\<lambda>(la, lo). (map_option (toFixed 6) la, map_option (toFixed 6) lo))
                           (gridLocations b res);
          chunks = chunksOf 100 allLocations
      in case topoChunks net chunks w (initAccum res) of
           (w', Inl e) \<Rightarrow> (w', Inl e)
         | (w', Inr acc) \<Rightarrow> (w', Inr (finish res b opentopodata acc)))"

definition meteoReply :: "response \<Rightarrow> js_error + real option list" where
  "meteoReply resp =
     (case resp of
        Rejected \<Rightarrow> Inl FetchRejected
      | NotOk code \<Rightarrow> Inl (ApiError ''Open-Meteo API error'' code)
      | BadJson \<Rightarrow> Inl JsonSyntaxError
      | Json d \<Rightarrow>
          (case elevation d of
             None \<Rightarrow> Inl (InvalidResponse ''Invalid response from Open-Meteo'')
           | Some es \<Rightarrow> Inr es))"

text \<open>
  The loop of \<^verbatim>\<open>fetchOpenMeteo\<close> slices the latitudes and the longitudes at the same
  indices; the model chunks the list of pairs and splits each chunk.
\<close>

fun meteoChunks ::
  "network \<Rightarrow> (fixed option \<times> fixed option) list list \<Rightarrow> Browser \<Rightarrow> Accum
     \<Rightarrow> Browser \<times> (js_error + Accum)" where
  "meteoChunks net [] w acc = (w, Inr acc)"
| "meteoChunks net (chunk # chunks) w acc =
     (case send net w (MeteoRequest (map fst chunk) (map snd chunk)) of
        (w', resp) \<Rightarrow>
          (case meteoReply resp of
             Inl e \<Rightarrow> (w', Inl e)
           | Inr es \<Rightarrow> meteoChunks net chunks w' (storeResults es acc)))"

definition fetchOpenMeteo :: client where
  "fetchOpenMeteo net w config =
     (let res = resolution config;
          b = getBoundingBox (lat (center config)) (lng (center config)) (areaKm config);
          coords = map (\<lambda>(la, lo). (map_option (toFixed 6) la, map_option (toFixed 6) lo))
                     (gridLocations b res);
          chunks = chunksOf 500 coords
      in case meteoChunks net chunks w (initAccum res) of
           (w', Inl e) \<Rightarrow> (w', Inl e)
         | (w', Inr acc) \<Rightarrow> (w', Inr (finish res b openmeteo acc)))"

text \<open>
  In \<^verbatim>\<open>fetchOpenElevation\<close> iterating over a missing \<^verbatim>\<open>data.results\<close> throws a
  TypeError inside the \<^verbatim>\<open>try\<close> block.
\<close>

definition elevationReply :: "response \<Rightarrow> js_error + result_entry list" where
  "elevationReply resp =
     (case resp of
        Rejected \<Rightarrow> Inl FetchRejected
      | NotOk code \<Rightarrow> Inl (ApiError ''Open-Elevation API error'' code)
      | BadJson \<Rightarrow> Inl JsonSyntaxError
      | Json d \<Rightarrow>
          (case results d of
             None \<Rightarrow> Inl TypeError
           | Some rs \<Rightarrow> Inr rs))"

definition elevationTry :: "response \<Rightarrow> Accum \<Rightarrow> Accum \<times> js_error option" where
  "elevationTry resp acc =
     (case elevationReply resp of
        Inl e \<Rightarrow> (acc, Some e)
      | Inr rs \<Rightarrow> storeEntries rs acc)"

text \<open>
  The chunk loop of \<^verbatim>\<open>fetchOpenElevation\<close>. The \<^verbatim>\<open>catch\<close> writes
  \<^verbatim>\<open>chunk.length\<close> zeros from the offset that the \<^verbatim>\<open>try\<close> block left, and the loop
  goes on.
\<close>

fun elevationChunks ::
  "network \<Rightarrow> (coord \<times> coord) list list \<Rightarrow> Browser \<Rightarrow> Accum \<Rightarrow> Browser \<times> Accum" where
  "elevationChunks net [] w acc = (w, acc)"
| "elevationChunks net (chunk # chunks) w acc =
     (case send net w (ElevationRequest chunk) of
        (w', resp) \<Rightarrow>
          (case elevationTry resp acc of
             (acc', Some e) \<Rightarrow> elevationChunks net chunks w' (fillZeros (length chunk) acc')
           | (acc', None) \<Rightarrow> elevationChunks net chunks w' acc'))"

definition fetchOpenElevation :: client where
  "fetchOpenElevation net w config =
     (let res = resolution config;
          b = getBoundingBox (lat (center config)) (lng (center config)) (areaKm config);
          locations = gridLocations b res;
          chunks = chunksOf 100 locations
      in case elevationChunks net chunks w (initAccum res) of
           (w', acc) \<Rightarrow> (w', Inr (finish res b openelevation acc)))"

subsection \<open>fetchTerrain\<close>

text \<open>
  The loop of the auto mode over the provider table: the first client that returns
  ends it, a throwing client sets \<^verbatim>\<open>lastError\<close>.
\<close>

fun tryProviders ::
  "client list \<Rightarrow> network \<Rightarrow> Browser \<Rightarrow> TerrainConfig \<Rightarrow> js_error option
     \<Rightarrow> Browser \<times> ElevationData option \<times> js_error option" where
  "tryProviders [] net w config lastError = (w, None, lastError)"
| "tryProviders (fn # fns) net w config lastError =
     (case fn net w config of
        (w', Inr d) \<Rightarrow> (w', Some d, lastError)
      | (w', Inl e) \<Rightarrow> tryProviders fns net w' config (Some e))"

text \<open>
  \<^verbatim>\<open>const { provider = 'auto', useCache = true, onProgress } = options || {}\<close>.
\<close>

definition providerOf :: "FetchOptions option \<Rightarrow> ElevationAPIProvider" where
  "providerOf options =
     (case options of
        None \<Rightarrow> use_auto
      | Some opts \<Rightarrow> (case provider opts of None \<Rightarrow> use_auto | Some p \<Rightarrow> p))"

definition useCacheOf :: "FetchOptions option \<Rightarrow> bool" where
  "useCacheOf options =
     (case options of
        None \<Rightarrow> True
      | Some opts \<Rightarrow> (case useCache opts of None \<Rightarrow> True | Some u \<Rightarrow> u))"

text \<open>
  The part of \<^verbatim>\<open>fetchTerrain\<close> after the cache check, up to the test of \<^verbatim>\<open>data\<close>:
  the \<^verbatim>\<open>switch\<close> for a pinned client, whose exception leaves the function, and the
  loop of the auto mode, after which \<^verbatim>\<open>lastError || new Error(...)\<close> is thrown when
  \<^verbatim>\<open>data\<close> is still null.
\<close>

definition fetchLive ::
  "client \<Rightarrow> client \<Rightarrow> client \<Rightarrow> ElevationAPIProvider \<Rightarrow> network \<Rightarrow> Browser \<Rightarrow> TerrainConfig
     \<Rightarrow> Browser \<times> (js_error + ElevationData)" where
  "fetchLive topo meteo elev prov net w config =
     (case prov of
        use_opentopodata \<Rightarrow> topo net w config
      | use_openmeteo \<Rightarrow> meteo net w config
      | use_openelevation \<Rightarrow> elev net w config
      | use_auto \<Rightarrow>
          (case tryProviders [topo, meteo, elev] net w config None of
             (w', Some d, lastError) \<Rightarrow> (w', Inr d)
           | (w', None, lastError) \<Rightarrow>
               (w', Inl (case lastError of Some e \<Rightarrow> e | None \<Rightarrow> AllProvidersFailed))))"

text \<open>
  \<^verbatim>\<open>fetchTerrain\<close> over the three clients it names, in the order of its provider table.
  \<open>now_read\<close> and \<open>now_save\<close> are the values of \<^verbatim>\<open>Date.now()\<close> in \<^verbatim>\<open>getFromCache\<close>
  and in \<^verbatim>\<open>saveToCache\<close>.
\<close>

definition fetchTerrainWith ::
  "client \<Rightarrow> client \<Rightarrow> client \<Rightarrow> network \<Rightarrow> Browser \<Rightarrow> TerrainConfig \<Rightarrow> FetchOptions option
     \<Rightarrow> int \<Rightarrow> int \<Rightarrow> Browser \<times> (js_error + ElevationData)" where
  "fetchTerrainWith topo meteo elev net w config options now_read now_save =
     (case (if useCacheOf options then getFromCache w config now_read else (w, None)) of
        (w0, Some d) \<Rightarrow> (w0, Inr d)
      | (w0, None) \<Rightarrow>
          (case fetchLive topo meteo elev (providerOf options) net w0 config of
             (w1, Inl e) \<Rightarrow> (w1, Inl e)
           | (w1, Inr d) \<Rightarrow>
               ((if useCacheOf options then saveToCache w1 config d now_save else w1), Inr d)))"

definition fetchTerrain ::
  "network \<Rightarrow> Browser \<Rightarrow> TerrainConfig \<Rightarrow> FetchOptions option \<Rightarrow> int \<Rightarrow> int
     \<Rightarrow> Browser \<times> (js_error + ElevationData)" where
  "fetchTerrain = fetchTerrainWith fetchOpenTopoData fetchOpenMeteo fetchOpenElevation"

section \<open>Auxiliary notions and sample data\<close>

text \<open>The chunk lists that the three clients build for a configuration.\<close>

definition boundsOf :: "TerrainConfig \<Rightarrow> Bounds" where
  "boundsOf config = getBoundingBox (lat (center config)) (lng (center config)) (areaKm config)"

definition fixedLocations :: "TerrainConfig \<Rightarrow> (fixed option \<times> fixed option) list" where
  "fixedLocations config =
     map (\<lambda>(la, lo). (map_option (toFixed 6) la, map_option (toFixed 6) lo))
       (gridLocations (boundsOf config) (resolution config))"

definition topoChunkList :: "TerrainConfig \<Rightarrow> (fixed option \<times> fixed option) list list" where
  "topoChunkList config = chunksOf 100 (fixedLocations config)"

definition meteoChunkList :: "TerrainConfig \<Rightarrow> (fixed option \<times> fixed option) list list" where
  "meteoChunkList config = chunksOf 500 (fixedLocations config)"

definition elevationChunkList :: "TerrainConfig \<Rightarrow> (coord \<times> coord) list list" where
  "elevationChunkList config = chunksOf 100 (gridLocations (boundsOf config) (resolution config))"

text \<open>
  The outcome of the \<^verbatim>\<open>try\<close> block of \<^verbatim>\<open>fetchOpenTopoData\<close> on a reply: the error
  thrown, before or inside the loop, or the entries stored.
\<close>

definition topoOutcome :: "response \<Rightarrow> js_error + result_entry list" where
  "topoOutcome resp =
     (case topoReply resp of
        Inl e \<Rightarrow> Inl e
      | Inr rs \<Rightarrow> if ResultNull \<in> set rs then Inl TypeError else Inr rs)"

text \<open>
  What a client reads from the reply to its \<open>i\<close>-th chunk, when its call starts in the
  world \<open>w\<close>: the chunk is the request number \<open>length (requests w) + i\<close>.
\<close>

definition topoReplyAt :: "network \<Rightarrow> Browser \<Rightarrow> TerrainConfig \<Rightarrow> nat \<Rightarrow> js_error + result_entry list" where
  "topoReplyAt net w config i =
     topoOutcome (net (length (requests w) + i) (TopoRequest (topoChunkList config ! i)))"

definition meteoReplyAt :: "network \<Rightarrow> Browser \<Rightarrow> TerrainConfig \<Rightarrow> nat \<Rightarrow> js_error + real option list" where
  "meteoReplyAt net w config i =
     meteoReply (net (length (requests w) + i)
       (MeteoRequest (map fst (meteoChunkList config ! i)) (map snd (meteoChunkList config ! i))))"

definition elevationReplyAt :: "network \<Rightarrow> Browser \<Rightarrow> TerrainConfig \<Rightarrow> nat \<Rightarrow> js_error + result_entry list" where
  "elevationReplyAt net w config i =
     elevationReply (net (length (requests w) + i) (ElevationRequest (elevationChunkList config ! i)))"

text \<open>
  The samples that a chunk of \<open>n\<close> locations contributes: zeros when its request
  failed, else the returned values with \<open>0\<close> for a missing one.
\<close>

definition sampleValue :: "real option \<Rightarrow> real" where
  "sampleValue r = (case r of None \<Rightarrow> 0 | Some v \<Rightarrow> v)"

definition entryElevation :: "result_entry \<Rightarrow> real option" where
  "entryElevation entry = (case entry of ResultNull \<Rightarrow> None | ResultObject r \<Rightarrow> r)"

definition chunkValues :: "js_error + result_entry list \<Rightarrow> nat \<Rightarrow> real list" where
  "chunkValues reply n =
     (case reply of
        Inl e \<Rightarrow> replicate n 0
      | Inr rs \<Rightarrow> map (\<lambda>entry. sampleValue (entryElevation entry)) rs)"

text \<open>\<open>v\<close> lies between \<open>a\<close> and \<open>b\<close>, in either order.\<close>

definition between :: "real \<Rightarrow> real \<Rightarrow> real \<Rightarrow> bool" where
  "between a b v \<longleftrightarrow> min a b \<le> v \<and> v \<le> max a b"

text \<open>\<^verbatim>\<open>new THREE.Vector3(...kf.position)\<close>, as \<^verbatim>\<open>CameraPathHelper\<close> builds it.\<close>

definition vec3 :: "triple \<Rightarrow> Vector3" where
  "vec3 p = (case p of (a, b, c) \<Rightarrow> v3set a b c)"

text \<open>Two keyframes at the offsets 0.2 and 0.6 and a camera state at the origin.\<close>

definition kfA :: CameraKeyframe where
  "kfA = \<lparr>offset = 0.2, position = (0, 0, 0), target = (0, 0, 0), fov = Some 45\<rparr>"

definition kfB :: CameraKeyframe where
  "kfB = \<lparr>offset = 0.6, position = (16, 32, 48), target = (16, 0, 0), fov = Some 61\<rparr>"

definition state0 :: CameraState where
  "state0 =
     \<lparr>currentPosition = v3set 0 0 0, currentTarget = v3set 0 0 0,
      targetPosition = v3set 0 0 0, targetLookAt = v3set 0 0 0,
      camera = \<lparr>cam_position = v3set 0 0 0, cam_lookAt = v3set 0 0 0, cam_fov = Some 45\<rparr>\<rparr>"



text \<open>
  A browser with an empty store, a configuration with an 11 by 11 grid (121
  locations: a chunk of 100 and a chunk of 21), and three networks: one that rejects
  every request, one that rejects the second request of the session and answers any
  other Open-Elevation request with the elevation 5 for each location, and one on
  which Open Topo Data is over its quota while Open-Meteo answers 7 everywhere.
\<close>

definition sampleBrowser :: Browser where
  "sampleBrowser =
     \<lparr>window_defined = True, localStorage = Map.empty, quota_exceeded = False, requests = []\<rparr>"

definition sampleConfig :: TerrainConfig where
  "sampleConfig =
     \<lparr>center = \<lparr>lat = 0, lng = 0\<rparr>, zoom = 12, tileSize = 512, areaKm = 10, resolution = 11\<rparr>"

definition deadNetwork :: network where
  "deadNetwork i req = Rejected"

definition flakyNetwork :: network where
  "flakyNetwork i req =
     (if i = 1 then Rejected
      else case req of
             ElevationRequest locs \<Rightarrow>
               Json \<lparr>status = None, results = Some (map (\<lambda>l. ResultObject (Some 5)) locs),
                     elevation = None\<rparr>
           | _ \<Rightarrow> Rejected)"

text \<open>
  A network whose reply to the first request carries 50 results with the elevation
  5 and then a \<^verbatim>\<open>null\<close>, and whose later Open-Elevation replies carry the elevation
  7 for each location.
\<close>

definition nullEntryNetwork :: network where
  "nullEntryNetwork i req =
     (case req of
        ElevationRequest locs \<Rightarrow>
          if i = 0
          then Json \<lparr>status = None,
                     results = Some (replicate 50 (ResultObject (Some 5)) @ [ResultNull]),
                     elevation = None\<rparr>
          else Json \<lparr>status = None, results = Some (map (\<lambda>l. ResultObject (Some 7)) locs),
                     elevation = None\<rparr>
      | _ \<Rightarrow> Rejected)"

definition meteoOnlyNetwork :: network where
  "meteoOnlyNetwork i req =
     (case req of
        TopoRequest locs \<Rightarrow> NotOk 429
      | MeteoRequest las los \<Rightarrow>
          Json \<lparr>status = None, results = None, elevation = Some (map (\<lambda>l. Some 7) las)\<rparr>
      | ElevationRequest locs \<Rightarrow> Rejected)"

text \<open>
  A browser whose store holds, under the key of the sample configuration, an entry
  written at time 0.
\<close>

definition sampleData :: ElevationData where
  "sampleData =
     \<lparr>elevations = replicate 121 3, width = 11, height = 11, minElevation = 3,
      maxElevation = 3, bounds = boundsOf sampleConfig, source = openmeteo\<rparr>"

definition staleBrowser :: Browser where
  "staleBrowser =
     sampleBrowser\<lparr>localStorage :=
       [getCacheKey sampleConfig \<mapsto> Entry \<lparr>data = sampleData, timestamp = 0\<rparr>]\<rparr>"

text \<open>Options that pin the Open-Elevation client and leave the cache on.\<close>

definition pinElevation :: "FetchOptions option" where
  "pinElevation = Some \<lparr>provider = Some use_openelevation, useCache = Some True\<rparr>"

text \<open>A client that throws the given error without sending anything.\<close>

definition failingClient :: "js_error \<Rightarrow> client" where
  "failingClient e net w config = (w, Inl e)"


text \<open>A section narrower than the spacing of the doubles around its start: both bounds
  are doubles, and the computed midpoint rounds back to \<open>scrollStart\<close>.\<close>

definition narrowSection :: NarrativeSection where
  "narrowSection =
     \<lparr>section_id = ''narrow'', scrollStart = 1 / 2, scrollEnd = 1 / 2 + 1 / 2 ^ 53,
      title = ''Narrow''\<rparr>"


section \<open>Properties of the easing function\<close>

lemma easeInOutCubic_0: "easeInOutCubic 0 = 0"
  by (simp add: easeInOutCubic_def)


lemma ease_lower_half:
  assumes "0 \<le> t" "t < 1 / 2"
  shows "0 \<le> easeInOutCubic t \<and> easeInOutCubic t \<le> 1 / 2"
proof -
  have "t ^ 3 \<le> (1 / 2) ^ 3" using assms by (intro power_mono) auto
  then have "4 * t ^ 3 \<le> 1 / 2" by (simp add: power3_eq_cube)
  moreover have "0 \<le> 4 * t ^ 3" using assms by simp
  ultimately show ?thesis
    using assms by (simp add: easeInOutCubic_def power3_eq_cube algebra_simps)
qed

lemma ease_upper_half:
  assumes "1 / 2 \<le> t" "t \<le> 1"
  shows "1 / 2 \<le> easeInOutCubic t \<and> easeInOutCubic t \<le> 1"
proof -
  have "(2 - 2 * t) ^ 3 \<le> 1 ^ 3" using assms by (intro power_mono) auto
  moreover have "0 \<le> (2 - 2 * t) ^ 3" using assms by simp
  ultimately show ?thesis using assms by (simp add: easeInOutCubic_def)
qed

lemma ease_unit_interval:
  assumes "0 \<le> t" "t \<le> 1"
  shows "0 \<le> easeInOutCubic t \<and> easeInOutCubic t \<le> 1"
proof (cases "t < 1 / 2")
  case True
  then show ?thesis using ease_lower_half[of t] assms by linarith
next
  case False
  then show ?thesis using ease_upper_half[of t] assms by linarith
qed

lemma ease_mono:
  assumes "0 \<le> s" "s \<le> t" "t \<le> 1"
  shows "easeInOutCubic s \<le> easeInOutCubic t"
proof -
  consider "t < 1 / 2" | "s < 1 / 2" "1 / 2 \<le> t" | "1 / 2 \<le> s" by linarith
  then show ?thesis
  proof cases
    case 1
    then have s: "s < 1 / 2" using assms by simp
    have "s ^ 3 \<le> t ^ 3" using assms by (intro power_mono) auto
    then show ?thesis
      using 1 s by (simp add: easeInOutCubic_def power3_eq_cube algebra_simps)
  next
    case 2
    then show ?thesis using ease_lower_half[of s] ease_upper_half[of t] assms by linarith
  next
    case 3
    then have t: "1 / 2 \<le> t" using assms by simp
    have "(2 - 2 * t) ^ 3 \<le> (2 - 2 * s) ^ 3" using assms by (intro power_mono) auto
    then show ?thesis using 3 t by (simp add: easeInOutCubic_def)
  qed
qed

lemma lerp_between:
  assumes "0 \<le> e" "e \<le> 1"
  shows "between a b (lerp a b e)"
proof -
  define d where "d = e * (b - a)"
  have eq: "lerp a b e = a + d" by (simp add: lerp_def d_def algebra_simps)
  show ?thesis
  proof (cases "a \<le> b")
    case True
    have "0 \<le> d" using assms True by (simp add: d_def)
    moreover have "e * (b - a) \<le> 1 * (b - a)" using assms True by (intro mult_right_mono) auto
    then have "d \<le> b - a" by (simp only: d_def mult_1)
    ultimately show ?thesis unfolding eq between_def using True by (simp add: min_def max_def)
  next
    case False
    have "d \<le> 0" using assms False by (simp add: d_def mult_le_0_iff)
    moreover have "1 * (b - a) \<le> e * (b - a)"
      using assms False by (intro mult_right_mono_neg) auto
    then have "b - a \<le> d" by (simp only: d_def mult_1)
    ultimately show ?thesis unfolding eq between_def using False by (simp add: min_def max_def)
  qed
qed



lemma lerp3_at_0: "lerp3 p q 0 = vec3 p"
  by (simp add: lerp3_def lerp_def vec3_def split: prod.splits)


section \<open>Properties of the bracketing step\<close>

lemma scanPairs_all_above: "\<forall>k \<in> set kfs. s < offset k \<Longrightarrow> scanPairs kfs s = None"
  by (induction kfs s rule: scanPairs.induct) auto

lemma scanPairs_all_below: "\<forall>k \<in> set kfs. offset k < s \<Longrightarrow> scanPairs kfs s = None"
  by (induction kfs s rule: scanPairs.induct) auto

lemma sorted_hd_le:
  "sorted (map offset kfs) \<Longrightarrow> k \<in> set kfs \<Longrightarrow> offset (hd kfs) \<le> offset k"
  by (cases kfs) auto

lemma sorted_le_last:
  "sorted (map offset kfs) \<Longrightarrow> k \<in> set kfs \<Longrightarrow> offset k \<le> offset (last kfs)"
proof (induction kfs)
  case Nil
  then show ?case by simp
next
  case (Cons a kfs)
  then show ?case by (cases kfs) auto
qed

lemma findKeyframeRange_outside:
  assumes "sorted (map offset kfs)" "kfs \<noteq> []"
    and "s < offset (hd kfs) \<or> offset (last kfs) < s"
  shows "findKeyframeRange kfs s = (Some (hd kfs), Some (last kfs))"
proof -
  have "scanPairs kfs s = None"
    using assms(3)
  proof
    assume "s < offset (hd kfs)"
    then have "\<forall>k \<in> set kfs. s < offset k"
      using sorted_hd_le[OF assms(1)] by fastforce
    then show ?thesis by (rule scanPairs_all_above)
  next
    assume "offset (last kfs) < s"
    then have "\<forall>k \<in> set kfs. offset k < s"
      using sorted_le_last[OF assms(1)] by fastforce
    then show ?thesis by (rule scanPairs_all_below)
  qed
  then show ?thesis using assms(2) by (cases kfs) (simp_all add: findKeyframeRange_def)
qed





lemma interpolateKeyframes_bracket:
  assumes "findKeyframeRange kfs s = (Some before, Some after)"
  shows "\<exists>st'. interpolateKeyframes kfs st s = Inr st'
          \<and> targetPosition st' =
              lerp3 (position before) (position after) (easeInOutCubic (localT before after s))
          \<and> targetLookAt st' =
              lerp3 (target before) (target after) (easeInOutCubic (localT before after s))"
  using assms by (simp add: interpolateKeyframes_def Let_def)

section \<open>Claims about the camera interpolation\<close>

text \<open>
  C3. For every \<open>t\<close> in \<open>[0, 1]\<close> the easing function is \<open>4 t\<^sup>3\<close> when \<open>t < 0.5\<close> and
  \<open>1 - (-2 t + 2)\<^sup>3 / 2\<close> otherwise; it maps 0 to 0, 0.5 to 0.5, 1 to 1 and 0.25 to
  0.0625.
\<close>

theorem easeInOutCubic_values:
  assumes "0 \<le> t" "t \<le> 1"
  shows "easeInOutCubic t = (if t < 0.5 then 4 * t ^ 3 else 1 - ((- 2 * t + 2) ^ 3) / 2)
    \<and> easeInOutCubic 0 = 0 \<and> easeInOutCubic 0.5 = 0.5
    \<and> easeInOutCubic 1 = 1 \<and> easeInOutCubic 0.25 = 0.0625"
  by (simp add: easeInOutCubic_def power3_eq_cube)

theorem easeInOutCubic_values_witness:
  "(0::real) \<le> 3 / 4 \<and> (3 / 4 :: real) \<le> 1 \<and> easeInOutCubic (3 / 4) = 15 / 16"
  using easeInOutCubic_values[of "3 / 4"] by (simp add: power3_eq_cube)

text \<open>
  C10. The easing function is monotonically non-decreasing on \<open>[0, 1]\<close> and maps
  \<open>[0, 1]\<close> into \<open>[0, 1]\<close>; so whenever the interpolation factor \<open>t\<close> of the bracketing
  pair lies in \<open>[0, 1]\<close>, the eased factor does too, and each component of the
  interpolated position and look-at target lies between the components of the two
  bracketing keyframes.
\<close>

theorem ease_monotone_no_overshoot:
  assumes "0 \<le> t1" "t1 \<le> t2" "t2 \<le> 1"
    and "findKeyframeRange kfs s = (Some before, Some after)"
    and "0 \<le> localT before after s" "localT before after s \<le> 1"
  shows "easeInOutCubic t1 \<le> easeInOutCubic t2
    \<and> 0 \<le> easeInOutCubic t2 \<and> easeInOutCubic t2 \<le> 1
    \<and> 0 \<le> easeInOutCubic (localT before after s)
    \<and> easeInOutCubic (localT before after s) \<le> 1
    \<and> (\<exists>st'. interpolateKeyframes kfs st s = Inr st'
        \<and> between (fst (position before)) (fst (position after)) (x (targetPosition st'))
        \<and> between (fst (snd (position before))) (fst (snd (position after))) (y (targetPosition st'))
        \<and> between (snd (snd (position before))) (snd (snd (position after))) (z (targetPosition st'))
        \<and> between (fst (target before)) (fst (target after)) (x (targetLookAt st'))
        \<and> between (fst (snd (target before))) (fst (snd (target after))) (y (targetLookAt st'))
        \<and> between (snd (snd (target before))) (snd (snd (target after))) (z (targetLookAt st')))"
proof -
  define e where "e = easeInOutCubic (localT before after s)"
  have e: "0 \<le> e" "e \<le> 1"
    using ease_unit_interval[OF assms(5,6)] by (simp_all add: e_def)
  have t2: "0 \<le> t2" using assms by linarith
  obtain st' where st': "interpolateKeyframes kfs st s = Inr st'"
    "targetPosition st' = lerp3 (position before) (position after) e"
    "targetLookAt st' = lerp3 (target before) (target after) e"
    using interpolateKeyframes_bracket[OF assms(4), of st] unfolding e_def by blast
  have comp: "between (fst p) (fst q) (x (lerp3 p q e))
      \<and> between (fst (snd p)) (fst (snd q)) (y (lerp3 p q e))
      \<and> between (snd (snd p)) (snd (snd q)) (z (lerp3 p q e))" for p q
    using lerp_between[OF e] by (cases p, cases q) (simp add: lerp3_def v3set_def)
  show ?thesis
    using ease_mono[OF assms(1,2,3)] ease_unit_interval[OF t2 assms(3)] e st' comp
    unfolding e_def by auto
qed

theorem ease_monotone_no_overshoot_witness:
  "easeInOutCubic (1 / 4) \<le> easeInOutCubic (3 / 4)
   \<and> findKeyframeRange [kfA, kfB] (3 / 10) = (Some kfA, Some kfB)
   \<and> localT kfA kfB (3 / 10) = 1 / 4
   \<and> (\<exists>st'. interpolateKeyframes [kfA, kfB] state0 (3 / 10) = Inr st'
        \<and> between 0 16 (x (targetPosition st')) \<and> between 0 32 (y (targetPosition st')))"
proof -
  have r: "findKeyframeRange [kfA, kfB] (3 / 10) = (Some kfA, Some kfB)"
    by (simp add: findKeyframeRange_def kfA_def kfB_def)
  have t: "localT kfA kfB (3 / 10) = 1 / 4"
    by (simp add: localT_def kfA_def kfB_def)
  have h: "(0::real) \<le> 1 / 4" "(1 / 4 :: real) \<le> 3 / 4" "(3 / 4 :: real) \<le> 1" by simp_all
  have t01: "0 \<le> localT kfA kfB (3 / 10)" "localT kfA kfB (3 / 10) \<le> 1" by (simp_all add: t)
  have p: "position kfA = (0, 0, 0)" "position kfB = (16, 32, 48)"
    by (simp_all add: kfA_def kfB_def)
  show ?thesis
    using ease_monotone_no_overshoot[OF h r t01, of state0] r t unfolding p by auto
qed

text \<open>
  C1, as the code has it. For a non-empty keyframe list sorted by offset and a scroll
  offset strictly below the least or strictly above the greatest keyframe offset, no
  adjacent pair encloses the offset, so \<open>before\<close> is the first and \<open>after\<close> is the last
  keyframe. The pose is the eased interpolation between these two at the factor
  \<open>t = (s - first.offset) / (last.offset - first.offset)\<close>, which is negative below
  the path and greater than 1 above it; when the two offsets coincide (a path of one
  keyframe) \<open>t = 0\<close> and the pose is the first keyframe's pose exactly.
\<close>

theorem findKeyframeRange_outside_path:
  assumes "sorted (map offset kfs)" "kfs \<noteq> []"
    and "s < offset (hd kfs) \<or> offset (last kfs) < s"
  shows "findKeyframeRange kfs s = (Some (hd kfs), Some (last kfs))
    \<and> (\<exists>st'. interpolateKeyframes kfs st s = Inr st'
         \<and> targetPosition st' = lerp3 (position (hd kfs)) (position (last kfs))
                                  (easeInOutCubic (localT (hd kfs) (last kfs) s))
         \<and> targetLookAt st' = lerp3 (target (hd kfs)) (target (last kfs))
                                  (easeInOutCubic (localT (hd kfs) (last kfs) s))
         \<and> (offset (hd kfs) = offset (last kfs) \<longrightarrow>
               targetPosition st' = vec3 (position (hd kfs))
             \<and> targetLookAt st' = vec3 (target (hd kfs))))
    \<and> (offset (hd kfs) < offset (last kfs) \<and> s < offset (hd kfs) \<longrightarrow>
          localT (hd kfs) (last kfs) s < 0)
    \<and> (offset (hd kfs) < offset (last kfs) \<and> offset (last kfs) < s \<longrightarrow>
          1 < localT (hd kfs) (last kfs) s)"
proof -
  have r: "findKeyframeRange kfs s = (Some (hd kfs), Some (last kfs))"
    using assms by (rule findKeyframeRange_outside)
  obtain st' where st': "interpolateKeyframes kfs st s = Inr st'"
    "targetPosition st' = lerp3 (position (hd kfs)) (position (last kfs))
                            (easeInOutCubic (localT (hd kfs) (last kfs) s))"
    "targetLookAt st' = lerp3 (target (hd kfs)) (target (last kfs))
                            (easeInOutCubic (localT (hd kfs) (last kfs) s))"
    using interpolateKeyframes_bracket[OF r, of st] by blast
  have flat: "offset (hd kfs) = offset (last kfs) \<Longrightarrow>
      easeInOutCubic (localT (hd kfs) (last kfs) s) = 0"
    by (simp add: localT_def easeInOutCubic_0)
  have below: "offset (hd kfs) < offset (last kfs) \<Longrightarrow> s < offset (hd kfs) \<Longrightarrow>
      localT (hd kfs) (last kfs) s < 0"
    by (simp add: localT_def Let_def divide_neg_pos)
  have above: "offset (hd kfs) < offset (last kfs) \<Longrightarrow> offset (last kfs) < s \<Longrightarrow>
      1 < localT (hd kfs) (last kfs) s"
    by (simp add: localT_def Let_def)
  show ?thesis
    using r st' flat below above by (auto simp: lerp3_at_0)
qed

theorem findKeyframeRange_outside_path_witness:
  "sorted (map offset [kfA, kfB]) \<and> [kfA, kfB] \<noteq> [] \<and> (1 / 10 :: real) < offset (hd [kfA, kfB])
   \<and> findKeyframeRange [kfA, kfB] (1 / 10) = (Some kfA, Some kfB)
   \<and> localT kfA kfB (1 / 10) < 0"
proof -
  have h: "sorted (map offset [kfA, kfB])" "[kfA, kfB] \<noteq> []"
    "(1 / 10 :: real) < offset (hd [kfA, kfB]) \<or> offset (last [kfA, kfB]) < 1 / 10"
    by (simp_all add: kfA_def kfB_def)
  have o: "offset kfA < offset kfB" "(1 / 10 :: real) < offset kfA"
    by (simp_all add: kfA_def kfB_def)
  show ?thesis
    using findKeyframeRange_outside_path[OF h, of state0] h(1) o by simp
qed

text \<open>
  The claim C1 as written fails: below the path \<open>after\<close> is the last keyframe, not the
  first, and the pose is extrapolated. With the keyframes at 0.2 and 0.6 and the
  scroll offset 0.1 the target position is \<open>(-1, -2, -3)\<close>, not the first keyframe's
  \<open>(0, 0, 0)\<close>; at the scroll offset 0.9 it is \<open>(43, 86, 129)\<close>, not the last
  keyframe's \<open>(16, 32, 48)\<close>.
\<close>

theorem clamp_below_counterexample:
  "sorted (map offset [kfA, kfB]) \<and> (1 / 10 :: real) < offset kfA
   \<and> findKeyframeRange [kfA, kfB] (1 / 10) \<noteq> (Some kfA, Some kfA)
   \<and> map_sum id targetPosition (interpolateKeyframes [kfA, kfB] state0 (1 / 10))
       = Inr (v3set (- 1) (- 2) (- 3))
   \<and> vec3 (position kfA) = v3set 0 0 0
   \<and> offset kfB < (9 / 10 :: real)
   \<and> findKeyframeRange [kfA, kfB] (9 / 10) \<noteq> (Some kfB, Some kfB)
   \<and> map_sum id targetPosition (interpolateKeyframes [kfA, kfB] state0 (9 / 10))
       = Inr (v3set 43 86 129)
   \<and> vec3 (position kfB) = v3set 16 32 48"
  by (simp add: findKeyframeRange_def interpolateKeyframes_def localT_def easeInOutCubic_def
      lerp3_def lerp_def targetFov_def vec3_def v3set_def kfA_def kfB_def state0_def
      power3_eq_cube)




section \<open>Rounding to the nearest double\<close>

lemma pow2_powr: "pow2 k = 2 powr (of_int k)"
  by (simp add: pow2_def powr_int)

lemma pow2_pos: "0 < pow2 k"
  by (simp add: pow2_def)

lemma binade_eq:
  assumes "pow2 e \<le> \<bar>v\<bar>" "\<bar>v\<bar> < pow2 (e + 1)"
  shows "binade v = e"
proof -
  have "0 < \<bar>v\<bar>" using assms(1) pow2_pos[of e] by linarith
  then show ?thesis
    unfolding binade_def using assms
    by (simp add: floor_log_eq_powr_iff pow2_powr)
qed

text \<open>The rule that evaluates \<open>fl\<close>: give the binade and the rounded significand.\<close>

lemma fl_eval:
  assumes "pow2 e \<le> \<bar>v\<bar>" "\<bar>v\<bar> < pow2 (e + 1)"
    and "roundEven (v / pow2 (e - 52)) = m"
  shows "fl v = of_int m * pow2 (e - 52)"
proof -
  have "v \<noteq> 0" using assms(1) pow2_pos[of e] by auto
  then show ?thesis using binade_eq[OF assms(1,2)] assms(3) by (simp add: fl_def)
qed

lemma fl_0: "fl 0 = 0"
  by (simp add: fl_def)

lemma fl_1: "fl 1 = 1"
  by (rule fl_eval[of 0 1 "2 ^ 52", THEN trans]) (simp_all add: pow2_def roundEven_def)



section \<open>The two branches of the local progress\<close>


lemma getSectionProgress_falling:
  assumes "scrollStart sec \<le> p" "p \<le> scrollEnd sec"
    and "fl (scrollStart sec + fl (fl (scrollEnd sec - scrollStart sec) / 2)) \<le> p"
  shows "getSectionProgress p sec
           = fl (1 - fl (fl (p - fl (scrollStart sec + fl (fl (scrollEnd sec - scrollStart sec) / 2)))
                         / fl (fl (scrollEnd sec - scrollStart sec) / 2)))"
  using assms by (simp add: getSectionProgress_def Let_def)

section \<open>Distance of the computed progress from the exact envelope\<close>







section \<open>The doubles of the example 0.2 .. 0.6 and of the section 0.6 .. 0.78\<close>















text \<open>Why the value at \<open>scrollStart\<close> needs \<open>scrollStart < mid\<close>: in the narrow
  section the midpoint rounds to \<open>scrollStart\<close>, the falling branch is taken there, and
  the progress at \<open>scrollStart\<close> is 1.\<close>

lemma narrowSection_at_start:
  "scrollStart narrowSection < scrollEnd narrowSection
   \<and> fl (scrollStart narrowSection) = scrollStart narrowSection
   \<and> fl (scrollEnd narrowSection) = scrollEnd narrowSection
   \<and> getSectionProgress (scrollStart narrowSection) narrowSection = 1"
proof -
  have s: "scrollStart narrowSection = 1 / 2" "scrollEnd narrowSection = 1 / 2 + 1 / 2 ^ 53"
    by (simp_all only: narrowSection_def NarrativeSection.select_convs)
  have ds: "fl (1 / 2) = 1 / 2"
    by (rule fl_eval[of "- 1" _ "2 ^ 52", THEN trans]) (simp_all add: pow2_def roundEven_def)
  have de: "fl (1 / 2 + 1 / 2 ^ 53) = 1 / 2 + 1 / 2 ^ 53"
    by (rule fl_eval[of "- 1" _ "2 ^ 52 + 1", THEN trans]) (simp_all add: pow2_def roundEven_def)
  have "fl (1 / 2 + 1 / 2 ^ 53 - 1 / 2) = 1 / 2 ^ 53"
    by (rule fl_eval[of "- 53" _ "2 ^ 52", THEN trans]) (simp_all add: pow2_def roundEven_def)
  then have "fl (fl (scrollEnd narrowSection - scrollStart narrowSection) / 2) = fl (1 / 2 ^ 53 / 2)"
    by (simp only: s)
  also have "\<dots> = 1 / 2 ^ 54"
    by (rule fl_eval[of "- 54" _ "2 ^ 52", THEN trans]) (simp_all add: pow2_def roundEven_def)
  finally have h: "fl (fl (scrollEnd narrowSection - scrollStart narrowSection) / 2) = 1 / 2 ^ 54" .
  have "fl (scrollStart narrowSection
            + fl (fl (scrollEnd narrowSection - scrollStart narrowSection) / 2))
          = fl (1 / 2 + 1 / 2 ^ 54)"
    unfolding h by (simp only: s)
  also have "\<dots> = 1 / 2"
    by (rule fl_eval[of "- 1" _ "2 ^ 52", THEN trans]) (simp_all add: pow2_def roundEven_def)
  finally have m: "fl (scrollStart narrowSection
            + fl (fl (scrollEnd narrowSection - scrollStart narrowSection) / 2)) = 1 / 2" .
  have a: "scrollStart narrowSection \<le> scrollEnd narrowSection"
    by (simp add: s)
  have c: "fl (scrollStart narrowSection
               + fl (fl (scrollEnd narrowSection - scrollStart narrowSection) / 2))
      \<le> scrollStart narrowSection"
    unfolding m by (simp add: s)
  have "getSectionProgress (scrollStart narrowSection) narrowSection
          = fl (1 - fl (fl (scrollStart narrowSection - 1 / 2)
                        / fl (fl (scrollEnd narrowSection - scrollStart narrowSection) / 2)))"
    unfolding getSectionProgress_falling[OF order_refl a c] m by (rule refl)
  then have "getSectionProgress (scrollStart narrowSection) narrowSection = 1"
    unfolding h by (simp add: s fl_0 fl_1)
  then show ?thesis
    using ds de by (simp add: s)
qed

section \<open>Claims about the narrative overlay\<close>




section \<open>Properties of the temporal smoothing\<close>





lemma decay_le_one: "0 \<le> t \<Longrightarrow> (0.001::real) powr t \<le> 1"
  using powr_mono'[of 0 t "0.001"] by simp



lemma sum_list_nonneg_pos: "\<forall>d \<in> set ds. 0 < d \<Longrightarrow> 0 \<le> sum_list ds" for ds :: "real list"
  by (induction ds) auto











section \<open>Claims about the temporal smoothing\<close>




section \<open>Properties of the chunk loops\<close>

declare chunksOf.simps [simp del]

lemma chunksOf_Nil: "chunksOf n [] = []"
  by (simp add: chunksOf.simps)

lemma chunksOf_step:
  "xs \<noteq> [] \<Longrightarrow> 0 < n \<Longrightarrow> chunksOf n xs = take n xs # chunksOf n (drop n xs)"
  by (subst chunksOf.simps) simp

lemma chunksOf_nonempty: "xs \<noteq> [] \<Longrightarrow> 0 < n \<Longrightarrow> chunksOf n xs \<noteq> []"
  by (simp add: chunksOf_step)

lemma concat_chunksOf: "0 < n \<Longrightarrow> concat (chunksOf n xs) = xs"
proof (induction n xs rule: chunksOf.induct)
  case (1 n xs)
  show ?case
  proof (cases "xs = []")
    case True
    then show ?thesis by (simp add: chunksOf_Nil)
  next
    case False
    then show ?thesis using 1 by (simp add: chunksOf_step)
  qed
qed

lemma length_gridLocations: "length (gridLocations b res) = res * res"
  by (simp add: gridLocations_def length_concat comp_def sum_list_triv)

lemma send_world: "send net w req = (w\<lparr>requests := requests w @ [req]\<rparr>, net (length (requests w)) req)"
  by (simp add: send_def)

lemma storeEntries_clean:
  "ResultNull \<notin> set rs \<Longrightarrow> storeEntries rs acc = (storeResults (map entryElevation rs) acc, None)"
  by (induction rs acc rule: storeEntries.induct) (simp_all add: entryElevation_def)

lemma storeEntries_null:
  "ResultNull \<notin> set xs \<Longrightarrow>
     storeEntries (xs @ ResultNull # ys) acc
       = (storeResults (map entryElevation xs) acc, Some TypeError)"
  by (induction xs acc rule: storeEntries.induct) (simp_all add: entryElevation_def)

lemma storeEntries_error: "ResultNull \<in> set rs \<Longrightarrow> snd (storeEntries rs acc) = Some TypeError"
  by (induction rs acc rule: storeEntries.induct) auto

lemma topoTry_fail: "topoOutcome resp = Inl e \<Longrightarrow> snd (topoTry resp acc) = Some e"
  by (auto simp: topoOutcome_def topoTry_def storeEntries_error split: sum.splits if_splits)

lemma topoTry_ok:
  "topoOutcome resp = Inr rs \<Longrightarrow> topoTry resp acc = (storeResults (map entryElevation rs) acc, None)"
  by (auto simp: topoOutcome_def topoTry_def storeEntries_clean split: sum.splits if_splits)

lemma topoChunks_ok:
  assumes "\<forall>i<length chunks. \<not> isl (topoOutcome (net (length (requests w) + i) (TopoRequest (chunks ! i))))"
  shows "\<exists>acc'. topoChunks net chunks w acc
           = (w\<lparr>requests := requests w @ map TopoRequest chunks\<rparr>, Inr acc')"
  using assms
proof (induction chunks arbitrary: w acc)
  case Nil
  then show ?case by simp
next
  case (Cons chunk chunks)
  let ?w' = "w\<lparr>requests := requests w @ [TopoRequest chunk]\<rparr>"
  from Cons.prems have "\<not> isl (topoOutcome (net (length (requests w)) (TopoRequest chunk)))"
    by fastforce
  then obtain rs where rs: "topoOutcome (net (length (requests w)) (TopoRequest chunk)) = Inr rs"
    by (cases "topoOutcome (net (length (requests w)) (TopoRequest chunk))") auto
  have "\<forall>i<length chunks.
      \<not> isl (topoOutcome (net (length (requests ?w') + i) (TopoRequest (chunks ! i))))"
  proof (intro allI impI)
    fix i assume "i < length chunks"
    then have "\<not> isl (topoOutcome (net (length (requests w) + Suc i)
                 (TopoRequest ((chunk # chunks) ! Suc i))))"
      using Cons.prems by (metis Suc_less_eq length_Cons)
    then show "\<not> isl (topoOutcome (net (length (requests ?w') + i) (TopoRequest (chunks ! i))))"
      by simp
  qed
  from Cons.IH[OF this, of "storeResults (map entryElevation rs) acc"] show ?case
    by (simp add: send_world topoTry_ok[OF rs])
qed

lemma topoChunks_fail:
  assumes "i < length chunks"
    and "\<forall>j<i. \<not> isl (topoOutcome (net (length (requests w) + j) (TopoRequest (chunks ! j))))"
    and "topoOutcome (net (length (requests w) + i) (TopoRequest (chunks ! i))) = Inl e"
  shows "topoChunks net chunks w acc
           = (w\<lparr>requests := requests w @ map TopoRequest (take (Suc i) chunks)\<rparr>, Inl e)"
  using assms
proof (induction chunks arbitrary: w acc i)
  case Nil
  then show ?case by simp
next
  case (Cons chunk chunks)
  let ?w' = "w\<lparr>requests := requests w @ [TopoRequest chunk]\<rparr>"
  show ?case
  proof (cases i)
    case 0
    then have "snd (topoTry (net (length (requests w)) (TopoRequest chunk)) acc) = Some e"
      using Cons.prems(3) by (simp add: topoTry_fail)
    then show ?thesis using 0
      by (cases "topoTry (net (length (requests w)) (TopoRequest chunk)) acc")
        (simp add: send_world)
  next
    case (Suc k)
    have "\<not> isl (topoOutcome (net (length (requests w)) (TopoRequest chunk)))"
      using Cons.prems(2) Suc by fastforce
    then obtain rs where rs: "topoOutcome (net (length (requests w)) (TopoRequest chunk)) = Inr rs"
      by (cases "topoOutcome (net (length (requests w)) (TopoRequest chunk))") auto
    have k: "k < length chunks" using Cons.prems(1) Suc by simp
    have prev: "\<forall>j<k. \<not> isl (topoOutcome (net (length (requests ?w') + j) (TopoRequest (chunks ! j))))"
    proof (intro allI impI)
      fix j assume "j < k"
      then have "\<not> isl (topoOutcome (net (length (requests w) + Suc j)
                   (TopoRequest ((chunk # chunks) ! Suc j))))"
        using Cons.prems(2) Suc by (metis Suc_less_eq)
      then show "\<not> isl (topoOutcome (net (length (requests ?w') + j) (TopoRequest (chunks ! j))))"
        by simp
    qed
    have at: "topoOutcome (net (length (requests ?w') + k) (TopoRequest (chunks ! k))) = Inl e"
      using Cons.prems(3) Suc by simp
    from Cons.IH[OF k prev at, of "storeResults (map entryElevation rs) acc"] Suc show ?thesis
      by (simp add: send_world topoTry_ok[OF rs])
  qed
qed

lemma meteoChunks_ok:
  assumes "\<forall>i<length chunks. \<not> isl (meteoReply (net (length (requests w) + i) (MeteoRequest (map fst (chunks ! i)) (map snd (chunks ! i)))))"
  shows "\<exists>acc'. meteoChunks net chunks w acc
           = (w\<lparr>requests := requests w @ map (\<lambda>c. MeteoRequest (map fst c) (map snd c)) chunks\<rparr>, Inr acc')"
  using assms
proof (induction chunks arbitrary: w acc)
  case Nil
  then show ?case by simp
next
  case (Cons chunk chunks)
  let ?w' = "w\<lparr>requests := requests w @ [MeteoRequest (map fst chunk) (map snd chunk)]\<rparr>"
  from Cons.prems have "\<not> isl (meteoReply (net (length (requests w)) (MeteoRequest (map fst chunk) (map snd chunk))))"
    by fastforce
  then obtain rs where rs: "meteoReply (net (length (requests w)) (MeteoRequest (map fst chunk) (map snd chunk))) = Inr rs"
    by (cases "meteoReply (net (length (requests w)) (MeteoRequest (map fst chunk) (map snd chunk)))") auto
  have "\<forall>i<length chunks.
      \<not> isl (meteoReply (net (length (requests ?w') + i) (MeteoRequest (map fst (chunks ! i)) (map snd (chunks ! i)))))"
  proof (intro allI impI)
    fix i assume "i < length chunks"
    then have "\<not> isl (meteoReply (net (length (requests w) + Suc i)
                 (MeteoRequest (map fst ((chunk # chunks) ! Suc i)) (map snd ((chunk # chunks) ! Suc i)))))"
      using Cons.prems by (metis Suc_less_eq length_Cons)
    then show "\<not> isl (meteoReply (net (length (requests ?w') + i) (MeteoRequest (map fst (chunks ! i)) (map snd (chunks ! i)))))"
      by simp
  qed
  from Cons.IH[OF this, of "storeResults rs acc"] rs show ?case
    by (simp add: send_world)
qed

lemma meteoChunks_fail:
  assumes "i < length chunks"
    and "\<forall>j<i. \<not> isl (meteoReply (net (length (requests w) + j) (MeteoRequest (map fst (chunks ! j)) (map snd (chunks ! j)))))"
    and "meteoReply (net (length (requests w) + i) (MeteoRequest (map fst (chunks ! i)) (map snd (chunks ! i)))) = Inl e"
  shows "meteoChunks net chunks w acc
           = (w\<lparr>requests := requests w @ map (\<lambda>c. MeteoRequest (map fst c) (map snd c)) (take (Suc i) chunks)\<rparr>, Inl e)"
  using assms
proof (induction chunks arbitrary: w acc i)
  case Nil
  then show ?case by simp
next
  case (Cons chunk chunks)
  let ?w' = "w\<lparr>requests := requests w @ [MeteoRequest (map fst chunk) (map snd chunk)]\<rparr>"
  show ?case
  proof (cases i)
    case 0
    then show ?thesis using Cons.prems by (simp add: send_world)
  next
    case (Suc k)
    have "\<not> isl (meteoReply (net (length (requests w)) (MeteoRequest (map fst chunk) (map snd chunk))))"
      using Cons.prems(2) Suc by fastforce
    then obtain rs where rs: "meteoReply (net (length (requests w)) (MeteoRequest (map fst chunk) (map snd chunk))) = Inr rs"
      by (cases "meteoReply (net (length (requests w)) (MeteoRequest (map fst chunk) (map snd chunk)))") auto
    have k: "k < length chunks" using Cons.prems(1) Suc by simp
    have prev: "\<forall>j<k. \<not> isl (meteoReply (net (length (requests ?w') + j) (MeteoRequest (map fst (chunks ! j)) (map snd (chunks ! j)))))"
    proof (intro allI impI)
      fix j assume "j < k"
      then have "\<not> isl (meteoReply (net (length (requests w) + Suc j)
                   (MeteoRequest (map fst ((chunk # chunks) ! Suc j)) (map snd ((chunk # chunks) ! Suc j)))))"
        using Cons.prems(2) Suc by (metis Suc_less_eq)
      then show "\<not> isl (meteoReply (net (length (requests ?w') + j) (MeteoRequest (map fst (chunks ! j)) (map snd (chunks ! j)))))"
        by simp
    qed
    have at: "meteoReply (net (length (requests ?w') + k) (MeteoRequest (map fst (chunks ! k)) (map snd (chunks ! k)))) = Inl e"
      using Cons.prems(3) Suc by simp
    from Cons.IH[OF k prev at, of "storeResults rs acc"] rs Suc show ?thesis
      by (simp add: send_world)
  qed
qed

lemma storeResults_writes:
  assumes "acc_offset acc + length rs \<le> length (acc_elevations acc)"
  shows "acc_elevations (storeResults rs acc)
           = take (acc_offset acc) (acc_elevations acc) @ map sampleValue rs
               @ drop (acc_offset acc + length rs) (acc_elevations acc)
         \<and> acc_offset (storeResults rs acc) = acc_offset acc + length rs"
  using assms
proof (induction rs arbitrary: acc)
  case Nil
  then show ?case by simp
next
  case (Cons r rs)
  let ?k = "acc_offset acc"
  let ?xs = "acc_elevations acc"
  let ?acc' = "storeResult r acc"
  have k: "?k < length ?xs" using Cons.prems by simp
  have o: "acc_offset ?acc' = Suc ?k" "acc_elevations ?acc' = ?xs[?k := sampleValue r]"
    by (simp_all add: storeResult_def sampleValue_def Let_def)
  have pre: "acc_offset ?acc' + length rs \<le> length (acc_elevations ?acc')"
    using Cons.prems o by simp
  have t: "take (Suc ?k) (?xs[?k := sampleValue r]) = take ?k ?xs @ [sampleValue r]"
    using k by (simp add: take_Suc_conv_app_nth)
  have d: "drop (Suc ?k + length rs) (?xs[?k := sampleValue r]) = drop (Suc ?k + length rs) ?xs"
    by (simp add: drop_update_cancel)
  from Cons.IH[OF pre] show ?case
    unfolding o using t d by simp
qed

lemma fillZeros_writes:
  assumes "acc_offset acc + n \<le> length (acc_elevations acc)"
  shows "acc_elevations (fillZeros n acc)
           = take (acc_offset acc) (acc_elevations acc) @ replicate n 0
               @ drop (acc_offset acc + n) (acc_elevations acc)
         \<and> acc_offset (fillZeros n acc) = acc_offset acc + n"
  using assms
proof (induction n arbitrary: acc)
  case 0
  then show ?case by simp
next
  case (Suc n)
  let ?k = "acc_offset acc"
  let ?xs = "acc_elevations acc"
  let ?acc' = "acc\<lparr>acc_elevations := ?xs[?k := 0], acc_offset := Suc ?k\<rparr>"
  have k: "?k < length ?xs" using Suc.prems by simp
  have pre: "acc_offset ?acc' + n \<le> length (acc_elevations ?acc')"
    using Suc.prems by simp
  have t: "take (Suc ?k) (?xs[?k := 0]) = take ?k ?xs @ [0]"
    using k by (simp add: take_Suc_conv_app_nth)
  have d: "drop (Suc ?k + n) (?xs[?k := 0]) = drop (Suc ?k + n) ?xs"
    by (simp add: drop_update_cancel)
  from Suc.IH[OF pre] show ?case
    using t d by (simp add: replicate_app_Cons_same)
qed

lemma length_storeResults: "length (acc_elevations (storeResults rs acc)) = length (acc_elevations acc)"
  by (induction rs arbitrary: acc) (simp_all add: storeResult_def Let_def)

lemma length_fillZeros: "length (acc_elevations (fillZeros n acc)) = length (acc_elevations acc)"
  by (induction n arbitrary: acc) simp_all

lemma length_storeEntries:
  "length (acc_elevations (fst (storeEntries rs acc))) = length (acc_elevations acc)"
  by (induction rs acc rule: storeEntries.induct) (simp_all add: storeResult_def Let_def)

lemma length_elevationTry:
  "length (acc_elevations (fst (elevationTry resp acc))) = length (acc_elevations acc)"
  by (simp add: elevationTry_def length_storeEntries split: sum.splits)

lemma elevationTry_fail:
  "elevationReply resp = Inl e \<Longrightarrow> elevationTry resp acc = (acc, Some e)"
  by (simp add: elevationTry_def)

lemma elevationTry_ok:
  "elevationReply resp = Inr rs \<Longrightarrow> ResultNull \<notin> set rs \<Longrightarrow>
     elevationTry resp acc = (storeResults (map entryElevation rs) acc, None)"
  by (simp add: elevationTry_def storeEntries_clean)

lemma elevationChunks_step:
  "elevationChunks net (chunk # chunks) w acc
     = elevationChunks net chunks (w\<lparr>requests := requests w @ [ElevationRequest chunk]\<rparr>)
         (case elevationTry (net (length (requests w)) (ElevationRequest chunk)) acc of
            (acc', Some e) \<Rightarrow> fillZeros (length chunk) acc'
          | (acc', None) \<Rightarrow> acc')"
  by (simp add: send_world split: prod.splits option.splits)

lemma elevationChunks_world:
  "fst (elevationChunks net chunks w acc) = w\<lparr>requests := requests w @ map ElevationRequest chunks\<rparr>"
proof (induction chunks arbitrary: w acc)
  case Nil
  show ?case by simp
next
  case (Cons chunk chunks)
  show ?case unfolding elevationChunks_step Cons.IH by simp
qed

lemma elevationChunks_length:
  "length (acc_elevations (snd (elevationChunks net chunks w acc))) = length (acc_elevations acc)"
proof (induction chunks arbitrary: w acc)
  case Nil
  show ?case by simp
next
  case (Cons chunk chunks)
  obtain a e where t: "elevationTry (net (length (requests w)) (ElevationRequest chunk)) acc = (a, e)"
    by (cases "elevationTry (net (length (requests w)) (ElevationRequest chunk)) acc")
  have "length (acc_elevations a) = length (acc_elevations acc)"
    using length_elevationTry[of "net (length (requests w)) (ElevationRequest chunk)" acc] t
    by simp
  then have "length (acc_elevations
          (case elevationTry (net (length (requests w)) (ElevationRequest chunk)) acc of
             (acc', Some e) \<Rightarrow> fillZeros (length chunk) acc'
           | (acc', None) \<Rightarrow> acc'))
        = length (acc_elevations acc)"
    unfolding t by (cases e) (simp_all add: length_fillZeros)
  then show ?case unfolding elevationChunks_step Cons.IH by simp
qed

lemma elevationChunks_values:
  assumes "\<forall>i<length chunks. \<forall>rs.
             elevationReply (net (length (requests w) + i) (ElevationRequest (chunks ! i))) = Inr rs
             \<longrightarrow> ResultNull \<notin> set rs \<and> length rs = length (chunks ! i)"
    and "acc_offset acc + length (concat chunks) \<le> length (acc_elevations acc)"
  shows "acc_elevations (snd (elevationChunks net chunks w acc))
           = take (acc_offset acc) (acc_elevations acc)
             @ concat (map (\<lambda>i. chunkValues
                   (elevationReply (net (length (requests w) + i) (ElevationRequest (chunks ! i))))
                   (length (chunks ! i))) [0..<length chunks])
             @ drop (acc_offset acc + length (concat chunks)) (acc_elevations acc)"
  using assms
proof (induction chunks arbitrary: w acc)
  case Nil
  then show ?case by simp
next
  case (Cons chunk chunks)
  let ?w' = "w\<lparr>requests := requests w @ [ElevationRequest chunk]\<rparr>"
  let ?reply = "elevationReply (net (length (requests w)) (ElevationRequest chunk))"
  let ?k = "acc_offset acc"
  let ?xs = "acc_elevations acc"
  define acc' where
    "acc' = (case elevationTry (net (length (requests w)) (ElevationRequest chunk)) acc of
               (a, Some e) \<Rightarrow> fillZeros (length chunk) a
             | (a, None) \<Rightarrow> a)"
  have step: "elevationChunks net (chunk # chunks) w acc = elevationChunks net chunks ?w' acc'"
    unfolding elevationChunks_step acc'_def by (rule refl)
  have room: "?k + length chunk \<le> length ?xs" using Cons.prems(2) by simp
  have wr: "acc_elevations acc' = take ?k ?xs @ chunkValues ?reply (length chunk)
              @ drop (?k + length chunk) ?xs
            \<and> acc_offset acc' = ?k + length chunk"
  proof (cases ?reply)
    case (Inl e)
    then show ?thesis
      using fillZeros_writes[OF room] by (simp add: acc'_def chunkValues_def elevationTry_fail)
  next
    case (Inr rs)
    then have cl: "ResultNull \<notin> set rs" and len: "length rs = length chunk"
      using Cons.prems(1) by fastforce+
    then have "?k + length (map entryElevation rs) \<le> length ?xs" using room by simp
    from storeResults_writes[OF this] Inr len show ?thesis
      by (simp add: acc'_def chunkValues_def elevationTry_ok[OF Inr cl] comp_def)
  qed
  have cv: "length (chunkValues ?reply (length chunk)) = length chunk"
  proof (cases ?reply)
    case (Inl e)
    then show ?thesis by (simp add: chunkValues_def)
  next
    case (Inr rs)
    then have "length rs = length chunk" using Cons.prems(1) by fastforce
    then show ?thesis using Inr by (simp add: chunkValues_def)
  qed
  have al: "\<forall>i<length chunks. \<forall>rs.
             elevationReply (net (length (requests ?w') + i) (ElevationRequest (chunks ! i))) = Inr rs
             \<longrightarrow> ResultNull \<notin> set rs \<and> length rs = length (chunks ! i)"
  proof (intro allI impI)
    fix i rs
    assume i: "i < length chunks"
      and r: "elevationReply (net (length (requests ?w') + i) (ElevationRequest (chunks ! i))) = Inr rs"
    have "Suc i < length (chunk # chunks)" using i by simp
    moreover have "elevationReply (net (length (requests w) + Suc i)
                     (ElevationRequest ((chunk # chunks) ! Suc i))) = Inr rs"
      using r by simp
    ultimately have "ResultNull \<notin> set rs \<and> length rs = length ((chunk # chunks) ! Suc i)"
      using Cons.prems(1) by blast
    then show "ResultNull \<notin> set rs \<and> length rs = length (chunks ! i)" by simp
  qed
  have room': "acc_offset acc' + length (concat chunks) \<le> length (acc_elevations acc')"
    using wr Cons.prems(2) cv by simp
  have take': "take (acc_offset acc') (acc_elevations acc')
                 = take ?k ?xs @ chunkValues ?reply (length chunk)"
    using wr cv room by simp
  have drop': "drop (acc_offset acc' + length (concat chunks)) (acc_elevations acc')
                 = drop (?k + length (concat (chunk # chunks))) ?xs"
    using wr cv room by (simp add: ac_simps)
  have idx: "map (\<lambda>i. chunkValues
                   (elevationReply (net (length (requests w) + i)
                      (ElevationRequest ((chunk # chunks) ! i))))
                   (length ((chunk # chunks) ! i))) [0..<length (chunk # chunks)]
             = chunkValues ?reply (length chunk)
               # map (\<lambda>i. chunkValues
                   (elevationReply (net (length (requests ?w') + i) (ElevationRequest (chunks ! i))))
                   (length (chunks ! i))) [0..<length chunks]"
    by (simp add: upt_conv_Cons map_Suc_upt[symmetric] del: upt_Suc)
  show ?case
    unfolding step Cons.IH[OF al room'] take' drop' idx by simp
qed

section \<open>Properties of the three clients\<close>

lemma fetchOpenTopoData_chunks:
  "fetchOpenTopoData net w config =
     (case topoChunks net (topoChunkList config) w (initAccum (resolution config)) of
        (w', Inl e) \<Rightarrow> (w', Inl e)
      | (w', Inr acc) \<Rightarrow>
          (w', Inr (finish (resolution config) (boundsOf config) opentopodata acc)))"
  unfolding fetchOpenTopoData_def topoChunkList_def fixedLocations_def boundsOf_def Let_def
  by (rule refl)

lemma fetchOpenMeteo_chunks:
  "fetchOpenMeteo net w config =
     (case meteoChunks net (meteoChunkList config) w (initAccum (resolution config)) of
        (w', Inl e) \<Rightarrow> (w', Inl e)
      | (w', Inr acc) \<Rightarrow>
          (w', Inr (finish (resolution config) (boundsOf config) openmeteo acc)))"
  unfolding fetchOpenMeteo_def meteoChunkList_def fixedLocations_def boundsOf_def Let_def
  by (rule refl)

lemma fetchOpenElevation_chunks:
  "fetchOpenElevation net w config =
     (fst (elevationChunks net (elevationChunkList config) w (initAccum (resolution config))),
      Inr (finish (resolution config) (boundsOf config) openelevation
             (snd (elevationChunks net (elevationChunkList config) w
                     (initAccum (resolution config))))))"
  by (simp add: fetchOpenElevation_def elevationChunkList_def boundsOf_def Let_def
      split: prod.splits)

lemma first_failure:
  fixes P :: "nat \<Rightarrow> bool"
  assumes "\<exists>i<n. P i"
  shows "\<exists>i<n. P i \<and> (\<forall>j<i. \<not> P j)"
proof -
  from assms obtain i where i: "i < n" "P i" by blast
  define m where "m = (LEAST k. P k)"
  have "P m" unfolding m_def using i(2) by (rule LeastI)
  moreover have "m \<le> i" unfolding m_def using i(2) by (rule Least_le)
  moreover have "\<forall>j<m. \<not> P j" unfolding m_def using not_less_Least by blast
  ultimately show ?thesis using i(1) by (intro exI[of _ m]) simp
qed

lemma topo_aborts:
  assumes "i < length (topoChunkList config)"
    and "\<forall>j<i. \<not> isl (topoReplyAt net w config j)"
    and "topoReplyAt net w config i = Inl e"
  shows "fetchOpenTopoData net w config
           = (w\<lparr>requests := requests w @ map TopoRequest (take (Suc i) (topoChunkList config))\<rparr>,
              Inl e)"
  using topoChunks_fail[of i "topoChunkList config" net w e "initAccum (resolution config)"] assms
  by (simp add: fetchOpenTopoData_chunks topoReplyAt_def)

lemma topo_returns:
  assumes "\<forall>i<length (topoChunkList config). \<not> isl (topoReplyAt net w config i)"
  shows "\<exists>d. fetchOpenTopoData net w config
           = (w\<lparr>requests := requests w @ map TopoRequest (topoChunkList config)\<rparr>, Inr d)
         \<and> source d = opentopodata"
  using topoChunks_ok[of "topoChunkList config" net w "initAccum (resolution config)"] assms
  by (auto simp: fetchOpenTopoData_chunks topoReplyAt_def finish_def)

lemma meteo_aborts:
  assumes "i < length (meteoChunkList config)"
    and "\<forall>j<i. \<not> isl (meteoReplyAt net w config j)"
    and "meteoReplyAt net w config i = Inl e"
  shows "fetchOpenMeteo net w config
           = (w\<lparr>requests := requests w
                 @ map (\<lambda>c. MeteoRequest (map fst c) (map snd c))
                     (take (Suc i) (meteoChunkList config))\<rparr>,
              Inl e)"
  using meteoChunks_fail[of i "meteoChunkList config" net w e "initAccum (resolution config)"] assms
  by (simp add: fetchOpenMeteo_chunks meteoReplyAt_def)

lemma meteo_returns:
  assumes "\<forall>i<length (meteoChunkList config). \<not> isl (meteoReplyAt net w config i)"
  shows "\<exists>d. fetchOpenMeteo net w config
           = (w\<lparr>requests := requests w
                 @ map (\<lambda>c. MeteoRequest (map fst c) (map snd c)) (meteoChunkList config)\<rparr>,
              Inr d)
         \<and> source d = openmeteo"
  using meteoChunks_ok[of "meteoChunkList config" net w "initAccum (resolution config)"] assms
  by (auto simp: fetchOpenMeteo_chunks meteoReplyAt_def finish_def)

lemma length_concat_elevationChunkList:
  "length (concat (elevationChunkList config)) = resolution config * resolution config"
  by (simp add: elevationChunkList_def concat_chunksOf length_gridLocations)

lemma elevation_returns:
  "\<exists>d. fetchOpenElevation net w config
         = (w\<lparr>requests := requests w @ map ElevationRequest (elevationChunkList config)\<rparr>, Inr d)
       \<and> length (elevations d) = resolution config * resolution config
       \<and> width d = resolution config \<and> height d = resolution config
       \<and> source d = openelevation"
  by (simp add: fetchOpenElevation_chunks elevationChunks_world elevationChunks_length
      finish_def initAccum_def)

lemma elevation_grid:
  assumes "\<forall>i<length (elevationChunkList config). \<forall>rs.
             elevationReplyAt net w config i = Inr rs
             \<longrightarrow> ResultNull \<notin> set rs \<and> length rs = length (elevationChunkList config ! i)"
  shows "elevations (projr (snd (fetchOpenElevation net w config)))
           = concat (map (\<lambda>i. chunkValues (elevationReplyAt net w config i)
                                  (length (elevationChunkList config ! i)))
                       [0..<length (elevationChunkList config)])"
proof -
  have room: "acc_offset (initAccum (resolution config)) + length (concat (elevationChunkList config))
                \<le> length (acc_elevations (initAccum (resolution config)))"
    by (simp add: initAccum_def length_concat_elevationChunkList)
  have al: "\<forall>i<length (elevationChunkList config). \<forall>rs.
             elevationReply (net (length (requests w) + i)
               (ElevationRequest (elevationChunkList config ! i))) = Inr rs
             \<longrightarrow> ResultNull \<notin> set rs \<and> length rs = length (elevationChunkList config ! i)"
    using assms by (simp add: elevationReplyAt_def)
  show ?thesis
    using elevationChunks_values[OF al room]
    by (simp add: fetchOpenElevation_chunks finish_def initAccum_def
        length_concat_elevationChunkList elevationReplyAt_def)
qed

lemma storeResults_beyond:
  "length (acc_elevations acc) \<le> acc_offset acc \<Longrightarrow>
     acc_elevations (storeResults rs acc) = acc_elevations acc"
  by (induction rs arbitrary: acc) (simp_all add: storeResult_def Let_def list_update_beyond)

lemma fillZeros_beyond:
  "length (acc_elevations acc) \<le> acc_offset acc \<Longrightarrow>
     acc_elevations (fillZeros n acc) = acc_elevations acc"
  by (induction n arbitrary: acc) (simp_all add: list_update_beyond)

lemma fillZeros_add: "fillZeros (m + n) acc = fillZeros n (fillZeros m acc)"
  by (induction m arbitrary: acc) simp_all

section \<open>Claims about chunk failures\<close>

lemma sample_elevation_chunks:
  "elevationChunkList sampleConfig
     = [take 100 (gridLocations (boundsOf sampleConfig) 11),
        drop 100 (gridLocations (boundsOf sampleConfig) 11)]"
proof -
  define L where "L = gridLocations (boundsOf sampleConfig) 11"
  have len: "length L = 121" by (simp add: L_def length_gridLocations)
  then have ne: "L \<noteq> []" "drop 100 L \<noteq> []" by auto
  have "chunksOf 100 L = take 100 L # chunksOf 100 (drop 100 L)"
    using ne(1) by (simp add: chunksOf_step)
  also have "chunksOf 100 (drop 100 L) = take 100 (drop 100 L) # chunksOf 100 (drop 100 (drop 100 L))"
    using ne(2) by (simp add: chunksOf_step)
  also have "take 100 (drop 100 L) = drop 100 L" using len by simp
  also have "drop 100 (drop 100 L) = []" using len by simp
  finally show ?thesis by (simp add: elevationChunkList_def sampleConfig_def L_def chunksOf_Nil)
qed

text \<open>
  C8. \<^verbatim>\<open>fetchOpenTopoData\<close> and \<^verbatim>\<open>fetchOpenMeteo\<close> throw the error of the first
  failed chunk (\<open>topo_aborts\<close>, \<open>meteo_aborts\<close>), and \<^verbatim>\<open>fetchOpenElevation\<close> never
  throws and returns a grid of resolution by resolution samples (\<open>elevation_returns\<close>).
  Its zeros stand at the locations of the failed chunk when the chunk fails before
  its first write and the replies before it had one result per location
  (\<open>elevation_grid\<close>). They do not when the \<^verbatim>\<open>try\<close> block throws inside its loop:
  the \<^verbatim>\<open>catch\<close> writes from the offset that the loop left. On an 11 by 11 grid, with
  a first reply of 50 results and then \<^verbatim>\<open>null\<close> and a second reply of 21 results of
  elevation 7, the failed first chunk keeps its 50 samples, the zeros run from cell
  50 past the end of the array, and the 21 samples of the second chunk are written
  past the end and lost: the grid is 50 fives and 71 zeros, where the claim has 100
  zeros and 21 sevens.
\<close>

theorem null_entry_shifts_zero_fill:
  "map_sum id elevations (snd (fetchOpenElevation nullEntryNetwork sampleBrowser sampleConfig))
     = Inr (replicate 50 5 @ replicate 71 0)
   \<and> length (requests (fst (fetchOpenElevation nullEntryNetwork sampleBrowser sampleConfig))) = 2
   \<and> replicate 50 5 @ replicate 71 0 \<noteq> replicate 100 0 @ replicate 21 (7 :: real)"
proof -
  define L where "L = gridLocations (boundsOf sampleConfig) 11"
  have len: "length L = 121" by (simp add: L_def length_gridLocations)
  have ch: "elevationChunkList sampleConfig = [take 100 L, drop 100 L]"
    by (simp add: sample_elevation_chunks L_def)
  define acc0 where "acc0 = initAccum 11"
  define acc1 where "acc1 = storeResults (replicate 50 (Some 5)) acc0"
  define acc2 where "acc2 = fillZeros 100 acc1"
  define acc3 where "acc3 = storeResults (map (\<lambda>l. Some 7) (drop 100 L)) acc2"
  define w1 where "w1 = sampleBrowser\<lparr>requests := requests sampleBrowser
                          @ [ElevationRequest (take 100 L)]\<rparr>"
  have e0: "acc_elevations acc0 = replicate 121 0" "acc_offset acc0 = 0"
    by (simp_all add: acc0_def initAccum_def)
  have e1: "acc_elevations acc1 = replicate 50 5 @ replicate 71 0" "acc_offset acc1 = 50"
    using storeResults_writes[of acc0 "replicate 50 (Some 5)"] e0
    by (simp_all add: acc1_def sampleValue_def)
  have e1': "acc_elevations (fillZeros 71 acc1) = replicate 50 5 @ replicate 71 0"
    "acc_offset (fillZeros 71 acc1) = 121"
    using fillZeros_writes[of acc1 71] e1 by simp_all
  have s2: "acc2 = fillZeros 29 (fillZeros 71 acc1)"
    using fillZeros_add[of 71 29 acc1] by (simp add: acc2_def)
  have e2: "acc_elevations acc2 = replicate 50 5 @ replicate 71 0"
    unfolding s2 using fillZeros_beyond[of "fillZeros 71 acc1" 29] e1' by simp
  have o2: "acc_offset acc2 = 150"
  proof -
    have "acc_offset (fillZeros n a) = acc_offset a + n" for n a
      by (induction n arbitrary: a) simp_all
    then show ?thesis using e1(2) by (simp add: acc2_def)
  qed
  have e3: "acc_elevations acc3 = replicate 50 5 @ replicate 71 0"
    unfolding acc3_def using storeResults_beyond[of acc2] e2 o2 by simp
  have t0: "elevationTry (nullEntryNetwork (length (requests sampleBrowser))
                            (ElevationRequest (take 100 L))) acc0
              = (acc1, Some TypeError)"
    using storeEntries_null[of "replicate 50 (ResultObject (Some 5))" "[]" acc0]
    by (simp add: elevationTry_def elevationReply_def nullEntryNetwork_def sampleBrowser_def
        acc1_def entryElevation_def)
  have t1: "elevationTry (nullEntryNetwork (length (requests w1))
                            (ElevationRequest (drop 100 L))) acc2
              = (acc3, None)"
    using storeEntries_clean[of "map (\<lambda>l. ResultObject (Some 7)) (drop 100 L)" acc2]
    by (auto simp: elevationTry_def elevationReply_def nullEntryNetwork_def sampleBrowser_def
        w1_def acc3_def entryElevation_def comp_def)
  have run: "snd (elevationChunks nullEntryNetwork [take 100 L, drop 100 L] sampleBrowser acc0) = acc3"
    unfolding elevationChunks_step t0 using t1 by (simp add: w1_def acc2_def len)
  have res: "resolution sampleConfig = 11" by (simp add: sampleConfig_def)
  have "snd (fetchOpenElevation nullEntryNetwork sampleBrowser sampleConfig)
          = Inr (finish 11 (boundsOf sampleConfig) openelevation acc3)"
    unfolding fetchOpenElevation_chunks ch res acc0_def[symmetric] run by (simp only: snd_conv)
  then have g: "map_sum id elevations
             (snd (fetchOpenElevation nullEntryNetwork sampleBrowser sampleConfig))
           = Inr (replicate 50 5 @ replicate 71 0)"
    using e3 by (simp add: finish_def)
  have "fst (fetchOpenElevation nullEntryNetwork sampleBrowser sampleConfig)
          = sampleBrowser\<lparr>requests := requests sampleBrowser
              @ map ElevationRequest (elevationChunkList sampleConfig)\<rparr>"
    by (simp add: fetchOpenElevation_chunks elevationChunks_world)
  then have r: "length (requests (fst (fetchOpenElevation nullEntryNetwork sampleBrowser
                                         sampleConfig))) = 2"
    by (simp add: ch sampleBrowser_def)
  have "(replicate 50 5 @ replicate 71 0) ! 0 \<noteq> (replicate 100 0 @ replicate 21 (7 :: real)) ! 0"
    by (simp add: nth_append)
  then have ne: "replicate 50 5 @ replicate 71 0 \<noteq> replicate 100 0 @ replicate 21 (7 :: real)"
    by metis
  show ?thesis using g r ne by blast
qed

section \<open>Claims about the provider fallback\<close>

lemma client_sources:
  "(fetchOpenTopoData net w config = (w', Inr d) \<longrightarrow> source d = opentopodata)
   \<and> (fetchOpenMeteo net w config = (w', Inr d) \<longrightarrow> source d = openmeteo)
   \<and> (fetchOpenElevation net w config = (w', Inr d) \<longrightarrow> source d = openelevation)"
  by (auto simp: fetchOpenTopoData_chunks fetchOpenMeteo_chunks fetchOpenElevation_chunks
      finish_def split: prod.splits sum.splits)

lemma fetchTerrainWith_live:
  assumes "(if useCacheOf options then getFromCache w config now_read else (w, None)) = (w0, None)"
  shows "fetchTerrainWith topo meteo elev net w config options now_read now_save
           = (case fetchLive topo meteo elev (providerOf options) net w0 config of
                (w1, Inl e) \<Rightarrow> (w1, Inl e)
              | (w1, Inr d) \<Rightarrow>
                  ((if useCacheOf options then saveToCache w1 config d now_save else w1), Inr d))"
  unfolding fetchTerrainWith_def assms by simp

text \<open>
  C7. In the auto mode, after a cache miss, \<^verbatim>\<open>fetchTerrain\<close> calls Open Topo Data,
  then Open-Meteo, then Open-Elevation, each with the same configuration and only when
  the one before threw. The first result is returned as that client produced it, and
  each client tags its result with its own source name. The call throws only when
  all three throw, and then it throws the error of the last one. The clients are
  parameters of \<open>fetchTerrainWith\<close>; \<open>fetchTerrain\<close> is its instance at the three
  clients of the module.
\<close>

theorem auto_fallback_order:
  assumes "providerOf options = use_auto"
    and "(if useCacheOf options then getFromCache w config now_read else (w, None)) = (w0, None)"
    and "result = fetchTerrainWith topo meteo elev net w config options now_read now_save"
    and "save = (\<lambda>w1 d. if useCacheOf options then saveToCache w1 config d now_save else w1)"
  shows
    "(\<forall>w1 d. topo net w0 config = (w1, Inr d) \<longrightarrow> result = (save w1 d, Inr d))
     \<and> (\<forall>w1 e1 w2 d. topo net w0 config = (w1, Inl e1) \<and> meteo net w1 config = (w2, Inr d)
           \<longrightarrow> result = (save w2 d, Inr d))
     \<and> (\<forall>w1 e1 w2 e2 w3 d. topo net w0 config = (w1, Inl e1)
           \<and> meteo net w1 config = (w2, Inl e2) \<and> elev net w2 config = (w3, Inr d)
           \<longrightarrow> result = (save w3 d, Inr d))
     \<and> (\<forall>w1 e1 w2 e2 w3 e3. topo net w0 config = (w1, Inl e1)
           \<and> meteo net w1 config = (w2, Inl e2) \<and> elev net w2 config = (w3, Inl e3)
           \<longrightarrow> result = (w3, Inl e3))
     \<and> (\<forall>e. snd result = Inl e
           \<longrightarrow> (\<exists>w1 e1 w2 e2 w3. topo net w0 config = (w1, Inl e1)
                  \<and> meteo net w1 config = (w2, Inl e2) \<and> elev net w2 config = (w3, Inl e)))
     \<and> (\<forall>n v c v' d. fetchOpenTopoData n v c = (v', Inr d) \<longrightarrow> source d = opentopodata)
     \<and> (\<forall>n v c v' d. fetchOpenMeteo n v c = (v', Inr d) \<longrightarrow> source d = openmeteo)
     \<and> (\<forall>n v c v' d. fetchOpenElevation n v c = (v', Inr d) \<longrightarrow> source d = openelevation)
     \<and> fetchTerrain = fetchTerrainWith fetchOpenTopoData fetchOpenMeteo fetchOpenElevation"
proof -
  have r: "result = (case fetchLive topo meteo elev use_auto net w0 config of
                (w1, Inl e) \<Rightarrow> (w1, Inl e)
              | (w1, Inr d) \<Rightarrow> (save w1 d, Inr d))"
    unfolding assms(3) fetchTerrainWith_live[OF assms(2)] assms(1) assms(4) by (rule refl)
  have a: "\<forall>w1 d. topo net w0 config = (w1, Inr d) \<longrightarrow> result = (save w1 d, Inr d)"
    unfolding r by (simp add: fetchLive_def)
  have b: "\<forall>w1 e1 w2 d. topo net w0 config = (w1, Inl e1) \<and> meteo net w1 config = (w2, Inr d)
           \<longrightarrow> result = (save w2 d, Inr d)"
    unfolding r by (simp add: fetchLive_def)
  have c: "\<forall>w1 e1 w2 e2 w3 d. topo net w0 config = (w1, Inl e1)
           \<and> meteo net w1 config = (w2, Inl e2) \<and> elev net w2 config = (w3, Inr d)
           \<longrightarrow> result = (save w3 d, Inr d)"
    unfolding r by (simp add: fetchLive_def)
  have d: "\<forall>w1 e1 w2 e2 w3 e3. topo net w0 config = (w1, Inl e1)
           \<and> meteo net w1 config = (w2, Inl e2) \<and> elev net w2 config = (w3, Inl e3)
           \<longrightarrow> result = (w3, Inl e3)"
    unfolding r by (simp add: fetchLive_def)
  have e: "\<forall>e. snd result = Inl e
           \<longrightarrow> (\<exists>w1 e1 w2 e2 w3. topo net w0 config = (w1, Inl e1)
                  \<and> meteo net w1 config = (w2, Inl e2) \<and> elev net w2 config = (w3, Inl e))"
  proof (intro allI impI)
    fix e assume t: "snd result = Inl e"
    obtain w1 r1 where p1: "topo net w0 config = (w1, r1)" by (cases "topo net w0 config")
    obtain w2 r2 where p2: "meteo net w1 config = (w2, r2)" by (cases "meteo net w1 config")
    obtain w3 r3 where p3: "elev net w2 config = (w3, r3)" by (cases "elev net w2 config")
    show "\<exists>w1 e1 w2 e2 w3. topo net w0 config = (w1, Inl e1)
            \<and> meteo net w1 config = (w2, Inl e2) \<and> elev net w2 config = (w3, Inl e)"
    proof (cases r1)
      case (Inr d1)
      then show ?thesis using t a p1 by simp
    next
      case e1: (Inl e1)
      show ?thesis
      proof (cases r2)
        case (Inr d2)
        then show ?thesis using t b p1 p2 e1 by simp
      next
        case e2: (Inl e2)
        show ?thesis
        proof (cases r3)
          case (Inr d3)
          then show ?thesis using t c p1 p2 p3 e1 e2 by simp
        next
          case (Inl e3)
          then have "result = (w3, Inl e3)" using d p1 p2 p3 e1 e2 by simp
          then have "e3 = e" using t by simp
          then show ?thesis using p1 p2 p3 e1 e2 Inl by blast
        qed
      qed
    qed
  qed
  have s1: "\<forall>n v c v' d. fetchOpenTopoData n v c = (v', Inr d) \<longrightarrow> source d = opentopodata"
    using client_sources by blast
  have s2: "\<forall>n v c v' d. fetchOpenMeteo n v c = (v', Inr d) \<longrightarrow> source d = openmeteo"
    using client_sources by blast
  have s3: "\<forall>n v c v' d. fetchOpenElevation n v c = (v', Inr d) \<longrightarrow> source d = openelevation"
    using client_sources by blast
  show ?thesis
    using a b c d e s1 s2 s3 fetchTerrain_def by blast
qed

lemma sample_locations_nonempty: "fixedLocations sampleConfig \<noteq> []"
proof -
  have "length (fixedLocations sampleConfig) = 121"
    by (simp add: fixedLocations_def length_gridLocations sampleConfig_def)
  then show ?thesis by auto
qed

lemma sample_cache_miss:
  "(if useCacheOf None then getFromCache sampleBrowser sampleConfig 0 else (sampleBrowser, None))
     = (sampleBrowser, None)"
  by (simp add: useCacheOf_def getFromCache_def sampleBrowser_def)

theorem auto_fallback_order_witness:
  "providerOf None = use_auto
   \<and> (\<exists>w1 e1 w2 d.
         fetchOpenTopoData meteoOnlyNetwork sampleBrowser sampleConfig = (w1, Inl e1)
       \<and> fetchOpenMeteo meteoOnlyNetwork w1 sampleConfig = (w2, Inr d)
       \<and> snd (fetchTerrain meteoOnlyNetwork sampleBrowser sampleConfig None 0 0) = Inr d
       \<and> source d = openmeteo)
   \<and> fetchTerrainWith (failingClient (ApiError ''quota'' 429)) (failingClient FetchRejected)
        (failingClient JsonSyntaxError) deadNetwork sampleBrowser sampleConfig None 0 0
      = (sampleBrowser, Inl JsonSyntaxError)"
proof -
  have au: "providerOf None = use_auto" by (simp add: providerOf_def)
  have i0: "0 < length (topoChunkList sampleConfig)"
    using chunksOf_nonempty[OF sample_locations_nonempty, of 100] by (simp add: topoChunkList_def)
  have f0: "topoReplyAt meteoOnlyNetwork sampleBrowser sampleConfig 0
              = Inl (ApiError ''Open Topo Data API error'' 429)"
    by (simp add: topoReplyAt_def topoOutcome_def meteoOnlyNetwork_def topoReply_def)
  define w1 where "w1 = sampleBrowser\<lparr>requests := requests sampleBrowser
                          @ map TopoRequest (take (Suc 0) (topoChunkList sampleConfig))\<rparr>"
  have p1: "fetchOpenTopoData meteoOnlyNetwork sampleBrowser sampleConfig
              = (w1, Inl (ApiError ''Open Topo Data API error'' 429))"
    unfolding w1_def using topo_aborts[OF i0 _ f0] by simp
  have "\<forall>i<length (meteoChunkList sampleConfig).
          \<not> isl (meteoReplyAt meteoOnlyNetwork w1 sampleConfig i)"
    by (simp add: meteoReplyAt_def meteoOnlyNetwork_def meteoReply_def)
  then obtain w2 d where p2: "fetchOpenMeteo meteoOnlyNetwork w1 sampleConfig = (w2, Inr d)"
    and src: "source d = openmeteo"
    using meteo_returns[of sampleConfig meteoOnlyNetwork w1] by blast
  note real = auto_fallback_order[where topo = fetchOpenTopoData and meteo = fetchOpenMeteo
      and elev = fetchOpenElevation and net = meteoOnlyNetwork and now_save = 0,
      OF au sample_cache_miss refl refl]
  have "fetchTerrainWith fetchOpenTopoData fetchOpenMeteo fetchOpenElevation meteoOnlyNetwork
          sampleBrowser sampleConfig None 0 0
        = ((if useCacheOf None then saveToCache w2 sampleConfig d 0 else w2), Inr d)"
    using real[THEN conjunct2, THEN conjunct1] p1 p2 by blast
  then have r: "snd (fetchTerrain meteoOnlyNetwork sampleBrowser sampleConfig None 0 0) = Inr d"
    by (simp add: fetchTerrain_def)
  note stub = auto_fallback_order[where topo = "failingClient (ApiError ''quota'' 429)"
      and meteo = "failingClient FetchRejected" and elev = "failingClient JsonSyntaxError"
      and net = deadNetwork and now_save = 0,
      OF au sample_cache_miss refl refl]
  have q: "failingClient (ApiError ''quota'' 429) deadNetwork sampleBrowser sampleConfig
             = (sampleBrowser, Inl (ApiError ''quota'' 429))
           \<and> failingClient FetchRejected deadNetwork sampleBrowser sampleConfig
             = (sampleBrowser, Inl FetchRejected)
           \<and> failingClient JsonSyntaxError deadNetwork sampleBrowser sampleConfig
             = (sampleBrowser, Inl JsonSyntaxError)"
    by (simp add: failingClient_def)
  have s: "fetchTerrainWith (failingClient (ApiError ''quota'' 429)) (failingClient FetchRejected)
        (failingClient JsonSyntaxError) deadNetwork sampleBrowser sampleConfig None 0 0
      = (sampleBrowser, Inl JsonSyntaxError)"
    using stub[THEN conjunct2, THEN conjunct2, THEN conjunct2, THEN conjunct1] q by blast
  show ?thesis using au p1 p2 r src s by blast
qed

section \<open>Properties of the cache\<close>

lemma topoChunks_frame:
  "\<exists>rs. fst (topoChunks net chunks w acc) = w\<lparr>requests := requests w @ rs\<rparr>
        \<and> (chunks \<noteq> [] \<longrightarrow> rs \<noteq> [])"
proof (induction chunks arbitrary: w acc)
  case Nil
  show ?case by (intro exI[of _ "[]"]) simp
next
  case (Cons chunk chunks)
  let ?w' = "w\<lparr>requests := requests w @ [TopoRequest chunk]\<rparr>"
  obtain a r where t: "topoTry (net (length (requests w)) (TopoRequest chunk)) acc = (a, r)"
    by (cases "topoTry (net (length (requests w)) (TopoRequest chunk)) acc")
  show ?case
  proof (cases r)
    case (Some e)
    then show ?thesis using t
      by (intro exI[of _ "[TopoRequest chunk]"]) (simp add: send_world)
  next
    case None
    obtain qs where "fst (topoChunks net chunks ?w' a) = ?w'\<lparr>requests := requests ?w' @ qs\<rparr>"
      using Cons.IH[of ?w' a] by blast
    then show ?thesis using None t
      by (intro exI[of _ "TopoRequest chunk # qs"]) (simp add: send_world)
  qed
qed

lemma meteoChunks_frame:
  "\<exists>rs. fst (meteoChunks net chunks w acc) = w\<lparr>requests := requests w @ rs\<rparr>
        \<and> (chunks \<noteq> [] \<longrightarrow> rs \<noteq> [])"
proof (induction chunks arbitrary: w acc)
  case Nil
  show ?case by (intro exI[of _ "[]"]) simp
next
  case (Cons chunk chunks)
  let ?q = "MeteoRequest (map fst chunk) (map snd chunk)"
  let ?w' = "w\<lparr>requests := requests w @ [?q]\<rparr>"
  let ?r = "meteoReply (net (length (requests w)) ?q)"
  show ?case
  proof (cases ?r)
    case (Inl e)
    then show ?thesis
      by (intro exI[of _ "[?q]"]) (simp add: send_world)
  next
    case (Inr rs)
    obtain qs where "fst (meteoChunks net chunks ?w' (storeResults rs acc))
                       = ?w'\<lparr>requests := requests ?w' @ qs\<rparr>"
      using Cons.IH[of ?w' "storeResults rs acc"] by blast
    then show ?thesis using Inr
      by (intro exI[of _ "?q # qs"]) (simp add: send_world)
  qed
qed

lemma grid_nonempty: "0 < res \<Longrightarrow> gridLocations b res \<noteq> []"
proof -
  assume "0 < res"
  then have "0 < length (gridLocations b res)" by (simp add: length_gridLocations)
  then show ?thesis by auto
qed

lemma topo_frame:
  "\<exists>rs. fst (fetchOpenTopoData net w config) = w\<lparr>requests := requests w @ rs\<rparr>
        \<and> (0 < resolution config \<longrightarrow> rs \<noteq> [])"
proof -
  obtain rs where rs: "fst (topoChunks net (topoChunkList config) w (initAccum (resolution config)))
                         = w\<lparr>requests := requests w @ rs\<rparr>"
    "topoChunkList config \<noteq> [] \<longrightarrow> rs \<noteq> []"
    using topoChunks_frame by blast
  have "0 < resolution config \<longrightarrow> topoChunkList config \<noteq> []"
    using grid_nonempty[of "resolution config" "boundsOf config"]
    by (simp add: topoChunkList_def fixedLocations_def chunksOf_nonempty)
  then show ?thesis using rs
    by (intro exI[of _ rs]) (auto simp: fetchOpenTopoData_chunks split: prod.splits sum.splits)
qed

lemma meteo_frame:
  "\<exists>rs. fst (fetchOpenMeteo net w config) = w\<lparr>requests := requests w @ rs\<rparr>
        \<and> (0 < resolution config \<longrightarrow> rs \<noteq> [])"
proof -
  obtain rs where rs: "fst (meteoChunks net (meteoChunkList config) w (initAccum (resolution config)))
                         = w\<lparr>requests := requests w @ rs\<rparr>"
    "meteoChunkList config \<noteq> [] \<longrightarrow> rs \<noteq> []"
    using meteoChunks_frame by blast
  have "0 < resolution config \<longrightarrow> meteoChunkList config \<noteq> []"
    using grid_nonempty[of "resolution config" "boundsOf config"]
    by (simp add: meteoChunkList_def fixedLocations_def chunksOf_nonempty)
  then show ?thesis using rs
    by (intro exI[of _ rs]) (auto simp: fetchOpenMeteo_chunks split: prod.splits sum.splits)
qed

lemma elevation_frame:
  "\<exists>rs. fst (fetchOpenElevation net w config) = w\<lparr>requests := requests w @ rs\<rparr>
        \<and> (0 < resolution config \<longrightarrow> rs \<noteq> [])"
proof -
  have "0 < resolution config \<longrightarrow> elevationChunkList config \<noteq> []"
    using grid_nonempty[of "resolution config" "boundsOf config"]
    by (simp add: elevationChunkList_def chunksOf_nonempty)
  then show ?thesis
    by (intro exI[of _ "map ElevationRequest (elevationChunkList config)"])
      (simp add: fetchOpenElevation_chunks elevationChunks_world)
qed

lemma frame_trans:
  assumes "w1 = w\<lparr>requests := requests w @ rs\<rparr>" "w2 = w1\<lparr>requests := requests w1 @ qs\<rparr>"
  shows "w2 = w\<lparr>requests := requests w @ (rs @ qs)\<rparr>"
  using assms by simp

lemma fetchLive_frame:
  "\<exists>rs. fst (fetchLive fetchOpenTopoData fetchOpenMeteo fetchOpenElevation prov net w config)
          = w\<lparr>requests := requests w @ rs\<rparr>
        \<and> (0 < resolution config \<longrightarrow> rs \<noteq> [])"
proof (cases prov)
  case use_opentopodata
  then show ?thesis using topo_frame[of net w config] by (simp add: fetchLive_def)
next
  case use_openmeteo
  then show ?thesis using meteo_frame[of net w config] by (simp add: fetchLive_def)
next
  case use_openelevation
  then show ?thesis using elevation_frame[of net w config] by (simp add: fetchLive_def)
next
  case use_auto
  obtain w1 r1 where p1: "fetchOpenTopoData net w config = (w1, r1)"
    by (cases "fetchOpenTopoData net w config")
  obtain rs1 where f1: "w1 = w\<lparr>requests := requests w @ rs1\<rparr>"
    "0 < resolution config \<longrightarrow> rs1 \<noteq> []"
    using topo_frame[of net w config] p1 by auto
  show ?thesis
  proof (cases r1)
    case (Inr d)
    then show ?thesis using use_auto p1 f1
      by (intro exI[of _ rs1]) (simp add: fetchLive_def)
  next
    case e1: (Inl e1)
    obtain w2 r2 where p2: "fetchOpenMeteo net w1 config = (w2, r2)"
      by (cases "fetchOpenMeteo net w1 config")
    obtain rs2 where f2: "w2 = w1\<lparr>requests := requests w1 @ rs2\<rparr>"
      using meteo_frame[of net w1 config] p2 by auto
    have g2: "w2 = w\<lparr>requests := requests w @ (rs1 @ rs2)\<rparr>"
      using f1(1) f2 by (rule frame_trans)
    show ?thesis
    proof (cases r2)
      case (Inr d)
      then show ?thesis using use_auto p1 p2 e1 g2 f1(2)
        by (intro exI[of _ "rs1 @ rs2"]) (simp add: fetchLive_def)
    next
      case e2: (Inl e2)
      obtain w3 r3 where p3: "fetchOpenElevation net w2 config = (w3, r3)"
        by (cases "fetchOpenElevation net w2 config")
      obtain rs3 where f3: "w3 = w2\<lparr>requests := requests w2 @ rs3\<rparr>"
        using elevation_frame[of net w2 config] p3 by auto
      have g3: "w3 = w\<lparr>requests := requests w @ ((rs1 @ rs2) @ rs3)\<rparr>"
        using g2 f3 by (rule frame_trans)
      show ?thesis using use_auto p1 p2 p3 e1 e2 g3 f1(2)
        by (intro exI[of _ "(rs1 @ rs2) @ rs3"]) (cases r3; simp add: fetchLive_def)
    qed
  qed
qed

lemma getFromCache_source:
  "getFromCache w config now = (w', Some d) \<Longrightarrow> source d = cache \<and> w' = w"
  by (auto simp: getFromCache_def Let_def split: if_splits option.splits stored.splits)

lemma getFromCache_flags:
  "window_defined (fst (getFromCache w config now)) = window_defined w
   \<and> quota_exceeded (fst (getFromCache w config now)) = quota_exceeded w
   \<and> requests (fst (getFromCache w config now)) = requests w"
  by (simp add: getFromCache_def Let_def split: option.splits stored.splits)

lemma getFromCache_other_keys:
  "k \<noteq> getCacheKey config \<Longrightarrow> localStorage (fst (getFromCache w config now)) k = localStorage w k"
  by (simp add: getFromCache_def Let_def split: option.splits stored.splits)

lemma saveToCache_other_keys:
  "k \<noteq> getCacheKey config \<Longrightarrow> localStorage (saveToCache w config d now) k = localStorage w k"
  by (simp add: saveToCache_def Let_def)

lemma getFromCache_hit:
  assumes "window_defined w" "localStorage w (getCacheKey config) = Some (Entry entry)"
    and "now - timestamp entry \<le> ttl"
  shows "getFromCache w config now = (w, Some ((data entry)\<lparr>source := cache\<rparr>))"
  using assms by (simp add: getFromCache_def Let_def)

lemma getFromCache_expired:
  assumes "window_defined w" "localStorage w (getCacheKey config) = Some (Entry entry)"
    and "now - timestamp entry > ttl"
  shows "getFromCache w config now
           = (w\<lparr>localStorage := (localStorage w)(getCacheKey config := None)\<rparr>, None)"
  using assms by (simp add: getFromCache_def Let_def)

lemma fetchTerrain_cases:
  "fetchTerrain net w config options now_read now_save
     = (case (if useCacheOf options then getFromCache w config now_read else (w, None)) of
          (w0, Some d) \<Rightarrow> (w0, Inr d)
        | (w0, None) \<Rightarrow>
            (case fetchLive fetchOpenTopoData fetchOpenMeteo fetchOpenElevation
                    (providerOf options) net w0 config of
               (w1, Inl e) \<Rightarrow> (w1, Inl e)
             | (w1, Inr d) \<Rightarrow>
                 ((if useCacheOf options then saveToCache w1 config d now_save else w1), Inr d)))"
  by (simp add: fetchTerrain_def fetchTerrainWith_def)

lemma fetchLive_source:
  "fetchLive fetchOpenTopoData fetchOpenMeteo fetchOpenElevation prov net w config = (w', Inr d)
     \<Longrightarrow> source d \<noteq> cache"
proof (cases prov)
  case use_auto
  assume a: "fetchLive fetchOpenTopoData fetchOpenMeteo fetchOpenElevation prov net w config
               = (w', Inr d)"
  obtain w1 r1 where p1: "fetchOpenTopoData net w config = (w1, r1)"
    by (cases "fetchOpenTopoData net w config")
  obtain w2 r2 where p2: "fetchOpenMeteo net w1 config = (w2, r2)"
    by (cases "fetchOpenMeteo net w1 config")
  obtain w3 r3 where p3: "fetchOpenElevation net w2 config = (w3, r3)"
    by (cases "fetchOpenElevation net w2 config")
  have "source d = opentopodata \<or> source d = openmeteo \<or> source d = openelevation"
    using a use_auto p1 p2 p3
      client_sources[of net w config w1 d] client_sources[of net w1 config w2 d]
      client_sources[of net w2 config w3 d]
    by (cases r1; cases r2; cases r3; simp add: fetchLive_def)
  then show ?thesis by auto
qed (insert client_sources[of net w config w' d], auto simp: fetchLive_def)

lemma fetchTerrain_live_result:
  assumes "fetchTerrain net w config options now_read now_save = (w1, Inr d)"
    and "source d \<noteq> cache" "useCacheOf options"
  shows "\<exists>rs. w1 = saveToCache
                    ((fst (getFromCache w config now_read))
                       \<lparr>requests := requests (fst (getFromCache w config now_read)) @ rs\<rparr>)
                    config d now_save"
proof -
  obtain w0 c where g: "getFromCache w config now_read = (w0, c)"
    by (cases "getFromCache w config now_read")
  have c: "c = None"
  proof (cases c)
    case (Some d0)
    then have "source d0 = cache" using getFromCache_source g by blast
    moreover have "d0 = d" using assms(1,3) g Some by (simp add: fetchTerrain_cases)
    ultimately show ?thesis using assms(2) by simp
  qed simp
  obtain wl r where l: "fetchLive fetchOpenTopoData fetchOpenMeteo fetchOpenElevation
                          (providerOf options) net w0 config = (wl, r)"
    by (cases "fetchLive fetchOpenTopoData fetchOpenMeteo fetchOpenElevation
                 (providerOf options) net w0 config")
  obtain rs where rs: "wl = w0\<lparr>requests := requests w0 @ rs\<rparr>"
    using fetchLive_frame[of "providerOf options" net w0 config] l by auto
  have "r = Inr d \<and> w1 = saveToCache wl config d now_save"
    using assms(1,3) g c l by (cases r) (simp_all add: fetchTerrain_cases)
  then show ?thesis using rs g by auto
qed

lemma fetchTerrain_other_keys:
  assumes "k \<noteq> getCacheKey config"
  shows "localStorage (fst (fetchTerrain net w config options now_read now_save)) k
           = localStorage w k"
proof -
  define w0 where "w0 = (if useCacheOf options then fst (getFromCache w config now_read) else w)"
  have k0: "localStorage w0 k = localStorage w k"
    using assms by (simp add: w0_def getFromCache_other_keys)
  define c where "c = (if useCacheOf options then snd (getFromCache w config now_read) else None)"
  have g: "(if useCacheOf options then getFromCache w config now_read else (w, None)) = (w0, c)"
    by (simp add: w0_def c_def)
  show ?thesis
  proof (cases c)
    case (Some d)
    then show ?thesis using g k0 by (simp add: fetchTerrain_cases)
  next
    case None
    obtain wl r where l: "fetchLive fetchOpenTopoData fetchOpenMeteo fetchOpenElevation
                            (providerOf options) net w0 config = (wl, r)"
      by (cases "fetchLive fetchOpenTopoData fetchOpenMeteo fetchOpenElevation
                   (providerOf options) net w0 config")
    obtain rs where "wl = w0\<lparr>requests := requests w0 @ rs\<rparr>"
      using fetchLive_frame[of "providerOf options" net w0 config] l by auto
    then have kl: "localStorage wl k = localStorage w k" using k0 by simp
    show ?thesis
      using g None l kl assms
      by (cases r) (simp_all add: fetchTerrain_cases saveToCache_other_keys)
  qed
qed

lemma fetchTerrain_sends:
  assumes "0 < resolution config"
    and "(if useCacheOf options then getFromCache w config now_read else (w, None)) = (w0, None)"
    and "requests w0 = requests w"
  shows "length (requests w) < length (requests (fst (fetchTerrain net w config options now_read now_save)))
       \<and> (\<forall>d. snd (fetchTerrain net w config options now_read now_save) = Inr d
             \<longrightarrow> source d \<noteq> cache)"
proof -
  obtain wl r where l: "fetchLive fetchOpenTopoData fetchOpenMeteo fetchOpenElevation
                          (providerOf options) net w0 config = (wl, r)"
    by (cases "fetchLive fetchOpenTopoData fetchOpenMeteo fetchOpenElevation
                 (providerOf options) net w0 config")
  obtain rs where rs: "wl = w0\<lparr>requests := requests w0 @ rs\<rparr>" "rs \<noteq> []"
    using fetchLive_frame[of "providerOf options" net w0 config] l assms(1) by auto
  have len: "length (requests w) < length (requests wl)"
    using rs assms(3) by (cases rs) simp_all
  have sv: "requests (saveToCache wl config d now_save) = requests wl" for d
    by (simp add: saveToCache_def Let_def)
  show ?thesis
  proof (cases r)
    case (Inl e)
    then show ?thesis using l assms(2) len by (simp add: fetchTerrain_cases)
  next
    case (Inr d)
    then have "source d \<noteq> cache" using l fetchLive_source by blast
    then show ?thesis using Inr l assms(2) len sv by (simp add: fetchTerrain_cases)
  qed
qed

lemma sample_pinned_fetch:
  "\<exists>w1 d1. fetchTerrain flakyNetwork sampleBrowser sampleConfig pinElevation 0 1000 = (w1, Inr d1)
           \<and> source d1 = openelevation"
proof -
  obtain d where d: "fetchOpenElevation flakyNetwork sampleBrowser sampleConfig
      = (sampleBrowser\<lparr>requests := requests sampleBrowser
            @ map ElevationRequest (elevationChunkList sampleConfig)\<rparr>, Inr d)"
    "source d = openelevation"
    using elevation_returns[of flakyNetwork sampleBrowser sampleConfig] by blast
  have g: "getFromCache sampleBrowser sampleConfig 0 = (sampleBrowser, None)"
    by (simp add: getFromCache_def sampleBrowser_def)
  have "snd (fetchTerrain flakyNetwork sampleBrowser sampleConfig pinElevation 0 1000) = Inr d"
    using g d(1)
    by (simp add: fetchTerrain_cases useCacheOf_def providerOf_def pinElevation_def fetchLive_def)
  then show ?thesis using d(2)
    by (cases "fetchTerrain flakyNetwork sampleBrowser sampleConfig pinElevation 0 1000") auto
qed

section \<open>Claims about the cache\<close>

text \<open>
  C5. In a browser whose store accepts the write, after a successful live
  \<^verbatim>\<open>fetchTerrain\<close> with the cache on, a second \<^verbatim>\<open>fetchTerrain\<close> with the cache on,
  for a configuration with the same latitude, longitude, area and resolution, at
  most 24 hours after the entry was written, sends no request (the browser state is
  unchanged) and returns the elevations, width, height, extremes and bounds of the
  first result with the source \<open>cache\<close>.
\<close>

theorem cache_hit_within_ttl:
  assumes "window_defined w" "\<not> quota_exceeded w"
    and "useCacheOf options" "useCacheOf options2"
    and "fetchTerrain net w config options t1 t1s = (w1, Inr d1)" "source d1 \<noteq> cache"
    and "lat (center config2) = lat (center config)" "lng (center config2) = lng (center config)"
    and "areaKm config2 = areaKm config" "resolution config2 = resolution config"
    and "t2 - t1s \<le> 24 * 60 * 60 * 1000"
  shows "\<exists>d2. fetchTerrain net2 w1 config2 options2 t2 t2s = (w1, Inr d2)
           \<and> requests (fst (fetchTerrain net2 w1 config2 options2 t2 t2s)) = requests w1
           \<and> elevations d2 = elevations d1 \<and> width d2 = width d1 \<and> height d2 = height d1
           \<and> minElevation d2 = minElevation d1 \<and> maxElevation d2 = maxElevation d1
           \<and> bounds d2 = bounds d1 \<and> source d2 = cache"
proof -
  let ?w0 = "fst (getFromCache w config t1)"
  obtain rs where w1: "w1 = saveToCache (?w0\<lparr>requests := requests ?w0 @ rs\<rparr>) config d1 t1s"
    using fetchTerrain_live_result[OF assms(5,6,3)] by blast
  have fl: "window_defined ?w0" "\<not> quota_exceeded ?w0"
    using getFromCache_flags[of w config t1] assms(1,2) by simp_all
  have key: "getCacheKey config2 = getCacheKey config"
    using assms(7-10) by (simp add: getCacheKey_def)
  have st: "window_defined w1"
    "localStorage w1 (getCacheKey config2) = Some (Entry \<lparr>data = d1, timestamp = t1s\<rparr>)"
    unfolding w1 key using fl by (simp_all add: saveToCache_def Let_def)
  have "t2 - timestamp \<lparr>data = d1, timestamp = t1s\<rparr> \<le> ttl"
    using assms(11) by (simp add: ttl_def)
  from getFromCache_hit[OF st this]
  have hit: "getFromCache w1 config2 t2 = (w1, Some (d1\<lparr>source := cache\<rparr>))" by simp
  have "fetchTerrain net2 w1 config2 options2 t2 t2s = (w1, Inr (d1\<lparr>source := cache\<rparr>))"
    using hit assms(4) by (simp add: fetchTerrain_cases)
  then show ?thesis by simp
qed

theorem cache_hit_within_ttl_witness:
  "window_defined sampleBrowser \<and> useCacheOf pinElevation \<and> useCacheOf None
   \<and> (86401000 - 1000 :: int) \<le> 24 * 60 * 60 * 1000
   \<and> (\<exists>w1 d1 d2.
         fetchTerrain flakyNetwork sampleBrowser sampleConfig pinElevation 0 1000 = (w1, Inr d1)
       \<and> source d1 = openelevation
       \<and> fetchTerrain deadNetwork w1 sampleConfig None 86401000 86401001 = (w1, Inr d2)
       \<and> source d2 = cache \<and> elevations d2 = elevations d1)"
proof -
  have h: "window_defined sampleBrowser" "\<not> quota_exceeded sampleBrowser"
    "useCacheOf pinElevation" "useCacheOf None"
    by (simp_all add: sampleBrowser_def useCacheOf_def pinElevation_def)
  have t: "(86401000 - 1000 :: int) \<le> 24 * 60 * 60 * 1000" by simp
  obtain w1 d1 where f:
    "fetchTerrain flakyNetwork sampleBrowser sampleConfig pinElevation 0 1000 = (w1, Inr d1)"
    and src: "source d1 = openelevation"
    using sample_pinned_fetch by blast
  have live: "source d1 \<noteq> cache" using src by simp
  obtain d2 where d2:
    "fetchTerrain deadNetwork w1 sampleConfig None 86401000 86401001 = (w1, Inr d2)"
    "elevations d2 = elevations d1" "source d2 = cache"
    using cache_hit_within_ttl[OF h f live refl refl refl refl t,
        of deadNetwork 86401001]
    by blast
  show ?thesis using h(1,3,4) t f src d2 by blast
qed

text \<open>
  C6. A cache read for a key whose entry was written more than 24 hours before the
  current time removes that entry and reports a miss, and the fetch for that
  configuration (with a grid of at least one sample) then sends requests and returns
  data that is not from the cache. No read, write or fetch touches an entry under
  another key, whatever its age: entries are removed only by the read of their own
  key.
\<close>

theorem lazy_expiry:
  assumes "window_defined w" "localStorage w (getCacheKey config) = Some (Entry entry)"
    and "now - timestamp entry > 24 * 60 * 60 * 1000" "0 < resolution config"
  shows "getFromCache w config now
           = (w\<lparr>localStorage := (localStorage w)(getCacheKey config := None)\<rparr>, None)
     \<and> length (requests w)
          < length (requests (fst (fetchTerrain net w config options now now_save)))
     \<and> (\<forall>d. snd (fetchTerrain net w config options now now_save) = Inr d \<longrightarrow> source d \<noteq> cache)
     \<and> (\<forall>v c t k. k \<noteq> getCacheKey c
           \<longrightarrow> localStorage (fst (getFromCache v c t)) k = localStorage v k)
     \<and> (\<forall>v c t d k. k \<noteq> getCacheKey c
           \<longrightarrow> localStorage (saveToCache v c d t) k = localStorage v k)
     \<and> (\<forall>n v c opts t t' k. k \<noteq> getCacheKey c
           \<longrightarrow> localStorage (fst (fetchTerrain n v c opts t t')) k = localStorage v k)"
proof -
  have ex: "now - timestamp entry > ttl" using assms(3) by (simp add: ttl_def)
  have a: "getFromCache w config now
           = (w\<lparr>localStorage := (localStorage w)(getCacheKey config := None)\<rparr>, None)"
    using getFromCache_expired[OF assms(1,2) ex] .
  obtain w0 where miss:
    "(if useCacheOf options then getFromCache w config now else (w, None)) = (w0, None)"
    "requests w0 = requests w"
    using a by (cases "useCacheOf options") simp_all
  note b = fetchTerrain_sends[OF assms(4) miss, of net now_save]
  have c: "\<forall>v c t k. k \<noteq> getCacheKey c
           \<longrightarrow> localStorage (fst (getFromCache v c t)) k = localStorage v k"
    using getFromCache_other_keys by blast
  have d: "\<forall>v c t d k. k \<noteq> getCacheKey c
           \<longrightarrow> localStorage (saveToCache v c d t) k = localStorage v k"
    using saveToCache_other_keys by blast
  have e: "\<forall>n v c opts t t' k. k \<noteq> getCacheKey c
           \<longrightarrow> localStorage (fst (fetchTerrain n v c opts t t')) k = localStorage v k"
    using fetchTerrain_other_keys by blast
  show ?thesis using a b c d e by blast
qed

theorem lazy_expiry_witness:
  "window_defined staleBrowser
   \<and> localStorage staleBrowser (getCacheKey sampleConfig)
       = Some (Entry \<lparr>data = sampleData, timestamp = 0\<rparr>)
   \<and> (86400001 - 0 :: int) > 24 * 60 * 60 * 1000
   \<and> getFromCache staleBrowser sampleConfig 86400001
       = (staleBrowser\<lparr>localStorage :=
            (localStorage staleBrowser)(getCacheKey sampleConfig := None)\<rparr>, None)
   \<and> length (requests staleBrowser)
       < length (requests (fst (fetchTerrain deadNetwork staleBrowser sampleConfig None
                                  86400001 86400002)))"
proof -
  have h: "window_defined staleBrowser"
    "localStorage staleBrowser (getCacheKey sampleConfig)
       = Some (Entry \<lparr>data = sampleData, timestamp = 0\<rparr>)"
    by (simp_all add: staleBrowser_def sampleBrowser_def)
  have t: "86400001 - timestamp \<lparr>data = sampleData, timestamp = 0\<rparr> > 24 * 60 * 60 * 1000"
    by simp
  have r: "0 < resolution sampleConfig" by (simp add: sampleConfig_def)
  note th = lazy_expiry[OF h t r, of deadNetwork None 86400002]
  have a: "getFromCache staleBrowser sampleConfig 86400001
       = (staleBrowser\<lparr>localStorage :=
            (localStorage staleBrowser)(getCacheKey sampleConfig := None)\<rparr>, None)"
    using th by (rule conjunct1)
  have b: "length (requests staleBrowser)
       < length (requests (fst (fetchTerrain deadNetwork staleBrowser sampleConfig None
                                  86400001 86400002)))"
    using th[THEN conjunct2] by (rule conjunct1)
  show ?thesis using h a b by simp
qed

end
